theory Spec2Isabelle
  imports Complex_Main "HOL-Library.Char_ord" "HOL-Library.List_Lexorder"
begin

section \<open>JavaScript values\<close>

text \<open>
  The values that the scanner, the schema and the config loader handle are those of
  JSON documents, together with \<open>undefined\<close> and the non-finite numbers that an
  in-memory object can hold. A finite number is a rational (every double is one).
  An object is the list of its own enumerable properties in enumeration order; a
  property read takes the first binding of a name. A character of a \<open>string\<close>
  stands for one code unit.
\<close>

datatype jsnum = Fin rat | PosInf | NegInf | NaN

datatype jsval =
    JUndefined
  | JNull
  | JBool bool
  | JNum jsnum
  | JStr string
  | JArr "jsval list"
  | JObj "(string \<times> jsval) list"

datatype error = TypeError | SyntaxError | IOError | OutOfModel

text \<open>ToBoolean: what \<open>!v\<close> and \<open>v || d\<close> test.\<close>

fun truthy :: "jsval \<Rightarrow> bool" where
  "truthy JUndefined = False"
| "truthy JNull = False"
| "truthy (JBool b) = b"
| "truthy (JNum (Fin r)) = (r \<noteq> 0)"
| "truthy (JNum NaN) = False"
| "truthy (JNum PosInf) = True"
| "truthy (JNum NegInf) = True"
| "truthy (JStr s) = (s \<noteq> [])"
| "truthy (JArr xs) = True"
| "truthy (JObj kvs) = True"

definition js_or :: "jsval \<Rightarrow> jsval \<Rightarrow> jsval" where
  "js_or a b = (if truthy a then a else b)"

fun typeof :: "jsval \<Rightarrow> string" where
  "typeof JUndefined = ''undefined''"
| "typeof JNull = ''object''"
| "typeof (JBool b) = ''boolean''"
| "typeof (JNum n) = ''number''"
| "typeof (JStr s) = ''string''"
| "typeof (JArr xs) = ''object''"
| "typeof (JObj kvs) = ''object''"

fun isArray :: "jsval \<Rightarrow> bool" where
  "isArray (JArr xs) = True"
| "isArray v = False"

text \<open>\<open>a < b\<close> and \<open>a > b\<close> on numbers: every comparison with NaN is false.\<close>

fun num_lt :: "jsnum \<Rightarrow> jsnum \<Rightarrow> bool" where
  "num_lt NaN b = False"
| "num_lt a NaN = False"
| "num_lt (Fin a) (Fin b) = (a < b)"
| "num_lt (Fin a) PosInf = True"
| "num_lt (Fin a) NegInf = False"
| "num_lt PosInf b = False"
| "num_lt NegInf NegInf = False"
| "num_lt NegInf b = True"

definition num_gt :: "jsnum \<Rightarrow> jsnum \<Rightarrow> bool" where
  "num_gt a b = num_lt b a"

text \<open>Decimal rendering of an array index, as a template literal and a property key
  show it.\<close>

definition digit_char :: "nat \<Rightarrow> char" where
  "digit_char d = char_of (48 + d)"

fun show_nat :: "nat \<Rightarrow> string" where
  "show_nat n = (if n < 10 then [digit_char n] else show_nat (n div 10) @ [digit_char (n mod 10)])"

declare show_nat.simps [simp del]

text \<open>
  A property read \<open>v.name\<close> for the fixed field names this program uses (none of
  them is \<open>length\<close>, an index or a built-in method): it throws on \<open>undefined\<close>
  and \<open>null\<close>, is \<open>undefined\<close> on every other non-object, and is the
  property's value (or \<open>undefined\<close>) on an object.
\<close>

definition obj_get :: "(string \<times> jsval) list \<Rightarrow> string \<Rightarrow> jsval" where
  "obj_get kvs k = (case map_of kvs k of None \<Rightarrow> JUndefined | Some v \<Rightarrow> v)"

fun js_get :: "jsval \<Rightarrow> string \<Rightarrow> error + jsval" where
  "js_get JUndefined k = Inl TypeError"
| "js_get JNull k = Inl TypeError"
| "js_get (JObj kvs) k = Inr (obj_get kvs k)"
| "js_get v k = Inr JUndefined"

text \<open>\<open>o[k] = v\<close> on an object: an existing property keeps its place, a new one is
  appended.\<close>

definition obj_set :: "(string \<times> jsval) list \<Rightarrow> string \<Rightarrow> jsval \<Rightarrow> (string \<times> jsval) list" where
  "obj_set kvs k v =
     (if k \<in> fst ` set kvs then map (\<lambda>(k', v'). if k' = k then (k', v) else (k', v')) kvs
      else kvs @ [(k, v)])"

text \<open>The own enumerable properties of a value, which \<open>Object.keys\<close>,
  \<open>Object.entries\<close> and object spread read: the properties of an object, the
  indexed elements of an array, the indexed characters of a string, none otherwise.\<close>

fun own_props :: "jsval \<Rightarrow> (string \<times> jsval) list" where
  "own_props (JObj kvs) = kvs"
| "own_props (JArr xs) = map (\<lambda>i. (show_nat i, xs ! i)) [0..<length xs]"
| "own_props (JStr s) = map (\<lambda>i. (show_nat i, JStr [s ! i])) [0..<length s]"
| "own_props v = []"

definition Object_keys :: "jsval \<Rightarrow> string list" where
  "Object_keys v = map fst (own_props v)"

definition Object_entries :: "jsval \<Rightarrow> (string \<times> jsval) list" where
  "Object_entries v = own_props v"

text \<open>Object spread \<open>{...a, ...b}\<close>: the properties of \<open>b\<close> are assigned onto
  those of \<open>a\<close> in order.\<close>

definition spread :: "(string \<times> jsval) list \<Rightarrow> (string \<times> jsval) list \<Rightarrow> (string \<times> jsval) list" where
  "spread acc kvs = foldl (\<lambda>a (k, v). obj_set a k v) acc kvs"

section \<open>scanner.js\<close>

record config =
  rootPath :: string
  ignore :: "string list"
  outputPath :: string

datatype stat = IsDirectory | NotDirectory

text \<open>
  What the scanner reads from outside: the file system calls (\<open>readFileSync\<close> and
  \<open>statSync\<close> throw where the model returns \<open>None\<close>), \<open>JSON.parse\<close>
  (\<open>None\<close> is a SyntaxError), \<open>path.join\<close> and the \<open>glob\<close> package,
  which takes the directory to walk and the ignore globs and resolves to the matched
  relative paths. \<open>statSync\<close> is indexed by the path relative to the scanned root.
\<close>

record env =
  existsSync :: "string \<Rightarrow> bool"
  readFileSync :: "string \<Rightarrow> string option"
  JSON_parse :: "string \<Rightarrow> jsval option"
  glob :: "string \<Rightarrow> string list \<Rightarrow> string list"
  statSync :: "string \<Rightarrow> stat option"
  path_join :: "string \<Rightarrow> string \<Rightarrow> string"

record scan_stats =
  total :: nat
  new :: nat
  missing :: nat
  documented :: nat

record scan_result =
  newDirs :: "string list"
  missingDirs :: "string list"
  unchangedDirs :: "string list"
  stats :: scan_stats

text \<open>\<open>readExistingMap\<close>: the parsed file, or \<open>null\<close> when the file is absent or
  reading or parsing throws (the catch only warns).\<close>

definition readExistingMap :: "env \<Rightarrow> string \<Rightarrow> jsval" where
  "readExistingMap e path =
     (if existsSync e path then
        (case readFileSync e path of
           None \<Rightarrow> JNull
         | Some content \<Rightarrow> (case JSON_parse e content of None \<Rightarrow> JNull | Some v \<Rightarrow> v))
      else JNull)"

text \<open>String helpers of the directory walk: \<open>split(path.sep)\<close> on a POSIX
  separator, \<open>join('/')\<close>, and the replacement of every backslash by a slash.\<close>

fun split_sep :: "char \<Rightarrow> string \<Rightarrow> string list" where
  "split_sep c [] = [] # []"
| "split_sep c (x # xs) =
     (if x = c then [] # split_sep c xs
      else (case split_sep c xs of [] \<Rightarrow> [x] # [] | p # ps \<Rightarrow> (x # p) # ps))"

fun join_sep :: "string \<Rightarrow> string list \<Rightarrow> string" where
  "join_sep s [] = []"
| "join_sep s [p] = p"
| "join_sep s (p # q # ps) = p @ s @ join_sep s (q # ps)"

definition replace_backslash :: "string \<Rightarrow> string" where
  "replace_backslash s = map (\<lambda>c. if c = CHR 0x5C then CHR ''/'' else c) s"

text \<open>A JavaScript \<open>Set\<close> of strings in insertion order.\<close>

definition set_add :: "string list \<Rightarrow> string \<Rightarrow> string list" where
  "set_add ds d = (if d \<in> set ds then ds else ds @ [d])"

text \<open>The body of the loop over the glob matches: a match that is a directory is
  added with a leading slash, then each of its proper prefixes; a match whose
  \<open>statSync\<close> throws is skipped.\<close>

definition add_parents :: "string list \<Rightarrow> string \<Rightarrow> string list" where
  "add_parents ds file =
     (let parts = split_sep CHR ''/'' file
      in foldl (\<lambda>acc i. set_add acc (''/'' @ join_sep ''/'' (take i parts))) ds [1..<length parts])"

definition visit :: "env \<Rightarrow> string list \<Rightarrow> string \<Rightarrow> string list" where
  "visit e ds file =
     (case statSync e file of
        None \<Rightarrow> ds
      | Some NotDirectory \<Rightarrow> ds
      | Some IsDirectory \<Rightarrow> add_parents (set_add ds (''/'' @ replace_backslash file)) file)"

definition findAllDirectories :: "env \<Rightarrow> string \<Rightarrow> string list \<Rightarrow> string list" where
  "findAllDirectories e rootDir ignorePatterns =
     (let ignoreGlobs = map (\<lambda>pattern. ''**/'' @ pattern @ ''/**'') ignorePatterns;
          files = glob e rootDir ignoreGlobs;
          dirs = foldl (visit e) [] files
      in sort dirs)"

definition compareDirectories :: "string list \<Rightarrow> string list \<Rightarrow> string \<Rightarrow> scan_result" where
  "compareDirectories currentDirs existingDirs rootDir =
     (let newDirs = filter (\<lambda>dir. dir \<notin> set existingDirs) currentDirs;
          missingDirs = filter (\<lambda>dir. dir \<notin> set currentDirs) existingDirs;
          unchangedDirs = filter (\<lambda>dir. dir \<in> set existingDirs) currentDirs
      in \<lparr> newDirs = sort newDirs,
           missingDirs = sort missingDirs,
           unchangedDirs = sort unchangedDirs,
           stats = \<lparr> total = length currentDirs,
                     new = length newDirs,
                     missing = length missingDirs,
                     documented = length unchangedDirs \<rparr> \<rparr>)"

definition existing_keys :: "jsval \<Rightarrow> string list" where
  "existing_keys existingMap =
     (if truthy existingMap then
        (case js_get existingMap ''directories'' of
           Inl err \<Rightarrow> []
         | Inr d \<Rightarrow> Object_keys (js_or d (JObj [])))
      else [])"

definition scanDirectories :: "env \<Rightarrow> config \<Rightarrow> scan_result" where
  "scanDirectories e cfg =
     (let existingMap = readExistingMap e (outputPath cfg);
          existingDirs = existing_keys existingMap;
          currentDirs = findAllDirectories e (rootPath cfg) (ignore cfg)
      in compareDirectories currentDirs existingDirs (rootPath cfg))"


section \<open>A file tree and the glob walk over it\<close>

datatype fsnode = File | Dir "(string \<times> fsnode) list" | Broken

text \<open>
  Modelled from the spec: the \<open>glob\<close> package is a dependency whose code is not
  under src/. With \<open>dot: false\<close> an entry whose name starts with a dot is hidden
  (section 4.2, step 2: hidden entries are excluded from traversal).
\<close>

definition hidden :: "string \<Rightarrow> bool" where
  "hidden n = (case n of [] \<Rightarrow> False | c # cs \<Rightarrow> c = CHR ''.'')"

text \<open>
  Modelled from the spec: an entry is excluded when its own name or the name of one of
  its ancestors is an ignore token (section 4.2, step 2), that is, when
  \<open>**/token/**\<close> is one of the ignore globs that \<open>findAllDirectories\<close> builds.
  Tokens are taken literally (no wildcard inside a token).
\<close>

definition ignored :: "string list \<Rightarrow> string list \<Rightarrow> bool" where
  "ignored ignoreGlobs segs = list_ex (\<lambda>seg. (''**/'' @ seg @ ''/**'') \<in> set ignoreGlobs) segs"

text \<open>
  Modelled from the spec: the walk of \<open>glob\<close> for the pattern \<open>**/*\<close>
  (section 4.2, step 2). Every entry below the root is matched, except that a hidden or
  ignored entry is neither matched nor entered. A matched path is relative to the root,
  its segments joined by a slash. \<open>Broken\<close> is an entry that is listed but cannot
  be stat'ed.
\<close>

fun glob_walk :: "string list \<Rightarrow> string list \<Rightarrow> fsnode \<Rightarrow> string list" where
  "glob_walk ignoreGlobs p (Dir es) =
     concat (map (\<lambda>(n, c).
        if hidden n \<or> ignored ignoreGlobs (p @ [n]) then []
        else join_sep ''/'' (p @ [n]) # glob_walk ignoreGlobs (p @ [n]) c) es)"
| "glob_walk ignoreGlobs p File = []"
| "glob_walk ignoreGlobs p Broken = []"

fun lookup :: "fsnode \<Rightarrow> string list \<Rightarrow> fsnode option" where
  "lookup t [] = Some t"
| "lookup (Dir es) (n # ns) = (case map_of es n of None \<Rightarrow> None | Some c \<Rightarrow> lookup c ns)"
| "lookup t (n # ns) = None"

definition tree_stat :: "fsnode \<Rightarrow> string \<Rightarrow> stat option" where
  "tree_stat t file =
     (case lookup t (split_sep CHR ''/'' file) of
        None \<Rightarrow> None
      | Some File \<Rightarrow> Some NotDirectory
      | Some (Dir es) \<Rightarrow> Some IsDirectory
      | Some Broken \<Rightarrow> None)"

text \<open>The environment of a scan whose root directory holds the tree \<open>t\<close> and whose
  manifest file, if there is one, parses to \<open>m\<close>.\<close>

definition tree_env :: "fsnode \<Rightarrow> jsval option \<Rightarrow> env" where
  "tree_env t m =
     \<lparr> existsSync = (\<lambda>p. m \<noteq> None),
       readFileSync = (\<lambda>p. Some []),
       JSON_parse = (\<lambda>s. m),
       glob = (\<lambda>cwd ignoreGlobs. glob_walk ignoreGlobs [] t),
       statSync = tree_stat t,
       path_join = (\<lambda>a b. a @ ''/'' @ b) \<rparr>"

definition scenario_tree :: fsnode where
  "scenario_tree =
     Dir [(''src'', Dir [(''api'', Dir [])]),
          (''node_modules'', Dir [(''pkg'', Dir [])])]"

definition scenario_config :: config where
  "scenario_config =
     \<lparr> rootPath = ''./'', ignore = [''node_modules''], outputPath = ''./crmbl-map.json'' \<rparr>"


subsection \<open>verifyDocumentation\<close>

record missing_readme =
  directory :: string
  expectedReadme :: string

text \<open>The verification result. The early return has no counts and carries an error
  text; the normal return has both counts and no error text.\<close>

record verification =
  v_valid :: bool
  missingReadmes :: "missing_readme list"
  totalDirectories :: "nat option"
  v_documented :: "int option"
  v_error :: "string option"

text \<open>The loop over \<open>Object.entries(map.directories)\<close>. Reading \<open>readmePath\<close> of
  a \<open>null\<close> entry throws, and \<open>path.join\<close> throws on an argument that is not
  a string.\<close>

fun verify_entries :: "env \<Rightarrow> string \<Rightarrow> (string \<times> jsval) list \<Rightarrow> missing_readme list
    \<Rightarrow> error + missing_readme list" where
  "verify_entries e rootDir [] acc = Inr acc"
| "verify_entries e rootDir ((dirPath, dirInfo) # rest) acc =
     (case js_get dirInfo ''readmePath'' of
        Inl err \<Rightarrow> Inl err
      | Inr rp \<Rightarrow>
          if truthy rp then
            (case rp of
               JStr readme \<Rightarrow>
                 if \<not> existsSync e (path_join e rootDir readme)
                 then verify_entries e rootDir rest
                        (acc @ [\<lparr> directory = dirPath, expectedReadme = readme \<rparr>])
                 else verify_entries e rootDir rest acc
             | _ \<Rightarrow> Inl TypeError)
          else verify_entries e rootDir rest
                 (acc @ [\<lparr> directory = dirPath, expectedReadme = ''No README path specified'' \<rparr>]))"

definition verifyDocumentation :: "env \<Rightarrow> config \<Rightarrow> jsval \<Rightarrow> error + verification" where
  "verifyDocumentation e cfg m =
     (if \<not> truthy m then
        Inr \<lparr> v_valid = False, missingReadmes = [], totalDirectories = None,
              v_documented = None,
              v_error = Some ''No crmbl-map.json found or invalid format'' \<rparr>
      else
        (case js_get m ''directories'' of
           Inl err \<Rightarrow> Inl err
         | Inr d \<Rightarrow>
             if \<not> truthy d then
               Inr \<lparr> v_valid = False, missingReadmes = [], totalDirectories = None,
                     v_documented = None,
                     v_error = Some ''No crmbl-map.json found or invalid format'' \<rparr>
             else
               (case verify_entries e (rootPath cfg) (Object_entries d) [] of
                  Inl err \<Rightarrow> Inl err
                | Inr missingList \<Rightarrow>
                    Inr \<lparr> v_valid = (length missingList = 0),
                          missingReadmes = missingList,
                          totalDirectories = Some (length (Object_keys d)),
                          v_documented =
                            Some (int (length (Object_keys d)) - int (length missingList)),
                          v_error = None \<rparr>)))"

section \<open>config.js\<close>

definition CONFIG_FILENAME :: string where
  "CONFIG_FILENAME = ''.crmbl-config.json''"

definition DEFAULT_CONFIG :: "(string \<times> jsval) list" where
  "DEFAULT_CONFIG =
     [(''rootPath'', JStr ''./''),
      (''ignore'', JArr [JStr ''node_modules'', JStr ''.git'', JStr ''dist'', JStr ''build'',
                        JStr ''.next'', JStr ''coverage'', JStr ''.cache'']),
      (''outputPath'', JStr ''./crmbl-map.json''),
      (''readmeTemplate'', JStr ''templates/readme-template.md'')]"

text \<open>
  The body of the \<open>try\<close> block of \<open>loadConfig\<close>: \<open>Inl\<close> is a throw,
  \<open>Inr None\<close> falls through to the code after the block, \<open>Inr (Some c)\<close> is
  its \<open>return\<close>.
\<close>

definition loadConfig_try :: "env \<Rightarrow> string \<Rightarrow> error + jsval option" where
  "loadConfig_try e configPath =
     (if existsSync e configPath then
        (case readFileSync e configPath of
           None \<Rightarrow> Inl IOError
         | Some content \<Rightarrow>
             (case JSON_parse e content of
                None \<Rightarrow> Inl SyntaxError
              | Some userConfig \<Rightarrow>
                  (case js_get userConfig ''ignore'' of
                     Inl err \<Rightarrow> Inl err
                   | Inr ig \<Rightarrow>
                       Inr (Some (JObj (spread (spread (spread [] DEFAULT_CONFIG) (own_props userConfig))
                          [(''ignore'', js_or ig (obj_get DEFAULT_CONFIG ''ignore''))]))))))
      else Inr None)"

definition loadConfig :: "env \<Rightarrow> string \<Rightarrow> jsval" where
  "loadConfig e cwd =
     (let configPath = path_join e cwd CONFIG_FILENAME
      in case loadConfig_try e configPath of
           Inr (Some c) \<Rightarrow> c
         | Inr None \<Rightarrow> JObj (spread [] DEFAULT_CONFIG)
         | Inl err \<Rightarrow> JObj (spread [] DEFAULT_CONFIG))"

text \<open>
  \<open>findConfig\<close>. A resolved absolute POSIX path is the list of its segments; the
  file system root is the empty list, \<open>path.dirname\<close> drops the last segment and
  \<open>path.join(dir, name)\<close> appends one. \<open>abs_path\<close> writes the path as the
  string that \<open>existsSync\<close> receives and that the function returns.
\<close>

definition abs_path :: "string list \<Rightarrow> string" where
  "abs_path segs = ''/'' @ join_sep ''/'' segs"

function findConfig :: "env \<Rightarrow> string list \<Rightarrow> string option" where
  "findConfig e currentDir =
     (if currentDir \<noteq> [] then
        (let configPath = abs_path (currentDir @ [CONFIG_FILENAME])
         in if existsSync e configPath then Some configPath
            else findConfig e (butlast currentDir))
      else None)"
  by pat_completeness auto
termination
  by (relation "measure (\<lambda>(e, currentDir). length currentDir)") auto

declare findConfig.simps [simp del]


section \<open>schema.js\<close>

text \<open>Sequencing of steps that may throw.\<close>

definition bind_err :: "error + 'a \<Rightarrow> ('a \<Rightarrow> error + 'b) \<Rightarrow> error + 'b" where
  "bind_err m f = (case m of Inl err \<Rightarrow> Inl err | Inr x \<Rightarrow> f x)"

text \<open>
  The clock: \<open>now\<close> is the text that \<open>new Date().toISOString()\<close> gives; the
  readings of one call are taken at the same instant.
\<close>

definition createEmptyMap :: "string \<Rightarrow> jsval" where
  "createEmptyMap now = JObj [(''generated'', JStr now), (''directories'', JObj [])]"

definition createDirectoryEntry :: "string \<Rightarrow> jsval \<Rightarrow> error + jsval" where
  "createDirectoryEntry now info0 =
     (let info = (if info0 = JUndefined then JObj [] else info0) in
      bind_err (js_get info ''purpose'') (\<lambda>purpose.
      bind_err (js_get info ''complexity'') (\<lambda>complexity.
      bind_err (js_get info ''changeFrequency'') (\<lambda>changeFrequency.
      bind_err (js_get info ''entryPoints'') (\<lambda>entryPoints.
      bind_err (js_get info ''internalDeps'') (\<lambda>internalDeps.
      bind_err (js_get info ''externalDeps'') (\<lambda>externalDeps.
      bind_err (js_get info ''readmePath'') (\<lambda>readmePath.
      bind_err (js_get info ''keyFiles'') (\<lambda>keyFiles.
      bind_err (js_get info ''subdirectories'') (\<lambda>subdirectories.
      bind_err (js_get info ''lastUpdated'') (\<lambda>lastUpdated.
        Inr (JObj
          [(''purpose'', js_or purpose (JStr [])),
           (''complexity'', js_or complexity (JNum (Fin 1))),
           (''changeFrequency'', js_or changeFrequency (JStr ''Unknown'')),
           (''entryPoints'', js_or entryPoints (JArr [])),
           (''internalDeps'', js_or internalDeps (JArr [])),
           (''externalDeps'', js_or externalDeps (JArr [])),
           (''readmePath'', js_or readmePath (JStr [])),
           (''keyFiles'', js_or keyFiles (JArr [])),
           (''subdirectories'', js_or subdirectories (JArr [])),
           (''lastUpdated'', js_or lastUpdated (JStr now))]))))))))))))"

record validation =
  valid :: bool
  errors :: "string list"

definition quoted :: "string \<Rightarrow> string" where
  "quoted s = [CHR 0x27] @ s @ [CHR 0x27]"

definition error_prefix :: "string \<Rightarrow> string" where
  "error_prefix dirPath = ''Directory '' @ quoted dirPath @ '':''"

definition complexity_error :: "string \<Rightarrow> string" where
  "complexity_error prefix = prefix @ '' complexity must be a number between 1 and 5''"

definition complexity_check :: "string \<Rightarrow> jsval \<Rightarrow> string list" where
  "complexity_check prefix complexity =
     (if complexity \<noteq> JUndefined then
        (if typeof complexity \<noteq> ''number''
            \<or> (case complexity of
                  JNum n \<Rightarrow> num_lt n (Fin 1) \<or> num_gt n (Fin 5)
                | _ \<Rightarrow> False)
         then [complexity_error prefix] else [])
      else [])"

definition validFrequencies :: "string list" where
  "validFrequencies = [''Stable'', ''Moderate'', ''Frequently Modified'', ''Unknown'']"

definition includes_str :: "string list \<Rightarrow> jsval \<Rightarrow> bool" where
  "includes_str xs v = (case v of JStr s \<Rightarrow> s \<in> set xs | _ \<Rightarrow> False)"

definition changeFrequency_check :: "string \<Rightarrow> jsval \<Rightarrow> string list" where
  "changeFrequency_check prefix changeFrequency =
     (if changeFrequency \<noteq> JUndefined then
        (if \<not> includes_str validFrequencies changeFrequency
         then [prefix @ '' changeFrequency must be one of: '' @ join_sep '', '' validFrequencies]
         else [])
      else [])"

definition arrayFields :: "string list" where
  "arrayFields = [''entryPoints'', ''internalDeps'', ''externalDeps'', ''subdirectories'']"

fun arrayFields_check :: "string \<Rightarrow> jsval \<Rightarrow> string list \<Rightarrow> error + string list" where
  "arrayFields_check prefix dirInfo [] = Inr []"
| "arrayFields_check prefix dirInfo (field # others) =
     (case js_get dirInfo field of
        Inl err \<Rightarrow> Inl err
      | Inr v \<Rightarrow>
          (case arrayFields_check prefix dirInfo others of
             Inl err \<Rightarrow> Inl err
           | Inr rest \<Rightarrow>
               Inr ((if v \<noteq> JUndefined \<and> \<not> isArray v
                     then [prefix @ '' '' @ field @ '' must be an array''] else []) @ rest)))"

text \<open>The \<open>forEach\<close> over \<open>keyFiles\<close>: reading \<open>file\<close> of an element that is
  \<open>null\<close> or \<open>undefined\<close> throws.\<close>

fun keyFiles_check :: "string \<Rightarrow> nat \<Rightarrow> jsval list \<Rightarrow> error + string list" where
  "keyFiles_check prefix idx [] = Inr []"
| "keyFiles_check prefix idx (kf # kfs) =
     (case js_get kf ''file'' of
        Inl err \<Rightarrow> Inl err
      | Inr file \<Rightarrow>
          (case js_get kf ''description'' of
             Inl err \<Rightarrow> Inl err
           | Inr description \<Rightarrow>
               (case keyFiles_check prefix (Suc idx) kfs of
                  Inl err \<Rightarrow> Inl err
                | Inr rest \<Rightarrow>
                    Inr ((if \<not> truthy file
                          then [prefix @ '' keyFiles['' @ show_nat idx @ ''] missing '' @ quoted ''file'' @ '' field'']
                          else [])
                       @ (if \<not> truthy description
                          then [prefix @ '' keyFiles['' @ show_nat idx @ ''] missing '' @ quoted ''description'' @ '' field'']
                          else [])
                       @ rest))))"

definition validateDirectoryEntry :: "string \<Rightarrow> jsval \<Rightarrow> error + string list" where
  "validateDirectoryEntry dirPath dirInfo =
     (let prefix = error_prefix dirPath in
      if typeof dirInfo \<noteq> ''object'' then Inr [prefix @ '' must be an object'']
      else
        bind_err (js_get dirInfo ''purpose'') (\<lambda>purpose.
        bind_err (js_get dirInfo ''complexity'') (\<lambda>complexity.
        bind_err (js_get dirInfo ''changeFrequency'') (\<lambda>changeFrequency.
        bind_err (arrayFields_check prefix dirInfo arrayFields) (\<lambda>arrayErrors.
        bind_err (js_get dirInfo ''keyFiles'') (\<lambda>keyFiles.
        bind_err (if keyFiles \<noteq> JUndefined then
                    (case keyFiles of
                       JArr kfs \<Rightarrow> keyFiles_check prefix 0 kfs
                     | _ \<Rightarrow> Inr [prefix @ '' keyFiles must be an array''])
                  else Inr []) (\<lambda>keyFilesErrors.
          Inr ((if purpose = JUndefined
                then [prefix @ '' missing '' @ quoted ''purpose'' @ '' field''] else [])
             @ complexity_check prefix complexity
             @ changeFrequency_check prefix changeFrequency
             @ arrayErrors
             @ keyFilesErrors))))))))"

fun validate_entries :: "(string \<times> jsval) list \<Rightarrow> error + string list" where
  "validate_entries [] = Inr []"
| "validate_entries ((dirPath, dirInfo) # rest) =
     (case validateDirectoryEntry dirPath dirInfo of
        Inl err \<Rightarrow> Inl err
      | Inr dirErrors \<Rightarrow>
          (case validate_entries rest of
             Inl err \<Rightarrow> Inl err
           | Inr others \<Rightarrow> Inr (dirErrors @ others)))"

text \<open>
  \<open>validateMap\<close>. The parameter \<open>date_nan\<close> is \<open>isNaN(Date.parse(v))\<close>, the
  date parser of the runtime.
\<close>

definition validateMap :: "(jsval \<Rightarrow> bool) \<Rightarrow> jsval \<Rightarrow> error + validation" where
  "validateMap date_nan m =
     (if \<not> truthy m then Inr \<lparr> valid = False, errors = [''Map is null or undefined''] \<rparr>
      else
        bind_err (js_get m ''generated'') (\<lambda>generated.
        bind_err (js_get m ''directories'') (\<lambda>directories.
        bind_err (if \<not> truthy directories then Inr [''Missing required field: directories'']
                  else if typeof directories \<noteq> ''object''
                  then Inr [''directories field must be an object'']
                  else validate_entries (Object_entries directories)) (\<lambda>dirErrors.
          let errs = (if \<not> truthy generated then [''Missing required field: generated'']
                      else if date_nan generated
                      then [''Invalid date format for generated field'']
                      else []) @ dirErrors
          in Inr \<lparr> valid = (length errs = 0), errors = errs \<rparr>))))"

text \<open>
  \<open>updateMap\<close>. The assignment \<open>map.directories[dirPath] = ...\<close> throws when
  \<open>map.directories\<close> is \<open>undefined\<close>, \<open>null\<close> or (the module being strict
  code) a primitive. On an array it would add a property that the value model cannot
  hold; that branch is \<open>OutOfModel\<close>.
\<close>

definition updateMap :: "string \<Rightarrow> jsval \<Rightarrow> string \<Rightarrow> jsval \<Rightarrow> error + jsval" where
  "updateMap now existingMap dirPath dirInfo =
     (let m = js_or existingMap (createEmptyMap now) in
      bind_err (js_get m ''directories'') (\<lambda>directories.
      bind_err (createDirectoryEntry now JUndefined) (\<lambda>defaults.
        let entry = JObj (spread (spread (spread [] (own_props defaults)) (own_props dirInfo))
                            [(''lastUpdated'', JStr now)])
        in case (m, directories) of
             (JObj mkvs, JObj ds) \<Rightarrow>
               Inr (JObj (obj_set (obj_set mkvs ''directories'' (JObj (obj_set ds dirPath entry)))
                            ''generated'' (JStr now)))
           | (_, JArr xs) \<Rightarrow> Inl OutOfModel
           | (_, _) \<Rightarrow> Inl TypeError)))"

section \<open>JSON serialisation\<close>

text \<open>
  \<open>JSON.parse(JSON.stringify(v))\<close> as a function on values: \<open>stringify\<close>
  leaves out a property whose value is \<open>undefined\<close> and writes \<open>null\<close> for an
  \<open>undefined\<close> array element and for a number that is not finite;
  \<open>stringify(undefined)\<close> is \<open>undefined\<close>, which \<open>parse\<close> rejects.
\<close>

fun json_norm :: "jsval \<Rightarrow> jsval" where
  "json_norm JUndefined = JNull"
| "json_norm JNull = JNull"
| "json_norm (JBool b) = JBool b"
| "json_norm (JNum (Fin r)) = JNum (Fin r)"
| "json_norm (JNum PosInf) = JNull"
| "json_norm (JNum NegInf) = JNull"
| "json_norm (JNum NaN) = JNull"
| "json_norm (JStr s) = JStr s"
| "json_norm (JArr xs) = JArr (map json_norm xs)"
| "json_norm (JObj kvs) =
     JObj (map (\<lambda>(k, v). (k, json_norm v)) (filter (\<lambda>(k, v). v \<noteq> JUndefined) kvs))"

definition JSON_roundtrip :: "jsval \<Rightarrow> error + jsval" where
  "JSON_roundtrip v = (if v = JUndefined then Inl SyntaxError else Inr (json_norm v))"

text \<open>\<open>validateMap(JSON.parse(JSON.stringify(m)))\<close>.\<close>

definition validate_roundtrip :: "(jsval \<Rightarrow> bool) \<Rightarrow> jsval \<Rightarrow> error + validation" where
  "validate_roundtrip date_nan m = bind_err (JSON_roundtrip m) (validateMap date_nan)"

section \<open>Fixtures\<close>

text \<open>An environment in which exactly one path exists and nothing can be read.\<close>

definition config_at :: "string \<Rightarrow> env" where
  "config_at p =
     \<lparr> existsSync = (\<lambda>q. q = p),
       readFileSync = (\<lambda>q. None),
       JSON_parse = (\<lambda>s. None),
       glob = (\<lambda>cwd ignoreGlobs. []),
       statSync = (\<lambda>q. None),
       path_join = (\<lambda>a b. a @ ''/'' @ b) \<rparr>"

text \<open>The scan result of the scenario of section 8.\<close>

definition scenario_result :: scan_result where
  "scenario_result =
     \<lparr> newDirs = [''/src'', ''/src/api''], missingDirs = [], unchangedDirs = [],
       stats = \<lparr> total = 2, new = 2, missing = 0, documented = 0 \<rparr> \<rparr>"

text \<open>A manifest file that records \<open>/src\<close> and \<open>/old\<close>.\<close>

definition old_manifest :: jsval where
  "old_manifest =
     JObj [(''generated'', JStr ''2024-01-01T00:00:00.000Z''),
           (''directories'', JObj [(''/src'', JObj []), (''/old'', JObj [])])]"

text \<open>The scenario tree with a manifest file that exists and is not JSON.\<close>

definition corrupt_env :: env where
  "corrupt_env =
     (tree_env scenario_tree None)
       \<lparr> existsSync := (\<lambda>p. True),
         readFileSync := (\<lambda>p. Some ''{ not json''),
         JSON_parse := (\<lambda>s. None) \<rparr>"

section \<open>Manifests built by the schema functions\<close>

text \<open>
  A supplied field value conforms to the data model of section 3 of the spec:
  \<open>purpose\<close> is a string, \<open>complexity\<close> a number from 1 to 5,
  \<open>changeFrequency\<close> one of the four names, each list field an array, and
  \<open>keyFiles\<close> an array of objects whose \<open>file\<close> and \<open>description\<close> are
  non-empty strings. The other fields are not constrained.
\<close>

fun key_file_ok :: "jsval \<Rightarrow> bool" where
  "key_file_ok (JObj kf) =
     ((case obj_get kf ''file'' of JStr s \<Rightarrow> s \<noteq> [] | _ \<Rightarrow> False)
      \<and> (case obj_get kf ''description'' of JStr s \<Rightarrow> s \<noteq> [] | _ \<Rightarrow> False))"
| "key_file_ok v = False"

definition field_ok :: "string \<Rightarrow> jsval \<Rightarrow> bool" where
  "field_ok k v =
     (if k = ''purpose'' then (case v of JStr s \<Rightarrow> True | _ \<Rightarrow> False)
      else if k = ''complexity'' then (case v of JNum (Fin r) \<Rightarrow> 1 \<le> r \<and> r \<le> 5 | _ \<Rightarrow> False)
      else if k = ''changeFrequency'' then includes_str validFrequencies v
      else if k \<in> set arrayFields then isArray v
      else if k = ''keyFiles'' then (case v of JArr kfs \<Rightarrow> list_all key_file_ok kfs | _ \<Rightarrow> False)
      else True)"

definition conforming :: "jsval \<Rightarrow> bool" where
  "conforming info = list_all (\<lambda>(k, v). field_ok k v) (own_props info)"

text \<open>A clock reading is usable when it is a non-empty text that the runtime's
  \<open>Date.parse\<close> accepts, as the output of \<open>toISOString\<close> is.\<close>

definition timestamp_ok :: "(jsval \<Rightarrow> bool) \<Rightarrow> string \<Rightarrow> bool" where
  "timestamp_ok date_nan now = (now \<noteq> [] \<and> \<not> date_nan (JStr now))"

text \<open>
  The manifests that the schema functions produce from conforming partials: the empty
  manifest, the result of \<open>updateMap\<close> on a produced or an absent manifest, and a
  produced manifest in which the caller stores the result of
  \<open>createDirectoryEntry\<close> under a path (as tests/scanner.test.js does).
\<close>

inductive produced :: "(jsval \<Rightarrow> bool) \<Rightarrow> jsval \<Rightarrow> bool" for date_nan :: "jsval \<Rightarrow> bool" where
  created:
    "timestamp_ok date_nan now \<Longrightarrow> produced date_nan (createEmptyMap now)"
| updated:
    "produced date_nan m \<Longrightarrow> timestamp_ok date_nan now \<Longrightarrow> conforming dirInfo
     \<Longrightarrow> updateMap now m dirPath dirInfo = Inr m'
     \<Longrightarrow> produced date_nan m'"
| updated_absent:
    "\<not> truthy existing \<Longrightarrow> timestamp_ok date_nan now \<Longrightarrow> conforming dirInfo
     \<Longrightarrow> updateMap now existing dirPath dirInfo = Inr m'
     \<Longrightarrow> produced date_nan m'"
| stored:
    "produced date_nan (JObj mkvs) \<Longrightarrow> obj_get mkvs ''directories'' = JObj ds
     \<Longrightarrow> timestamp_ok date_nan now \<Longrightarrow> conforming info
     \<Longrightarrow> createDirectoryEntry now info = Inr entry
     \<Longrightarrow> produced date_nan (JObj (obj_set mkvs ''directories'' (JObj (obj_set ds dirPath entry))))"

text \<open>A manifest with an entry of complexity 0, one of complexity 5 and one whose
  complexity is a string.\<close>

definition boundary_entries :: "(string \<times> jsval) list" where
  "boundary_entries =
     [(''/a'', JObj [(''purpose'', JStr ''a''), (''complexity'', JNum (Fin 0))]),
      (''/b'', JObj [(''purpose'', JStr ''b''), (''complexity'', JNum (Fin 5))]),
      (''/c'', JObj [(''purpose'', JStr ''c''), (''complexity'', JStr ''3'')])]"

definition boundary_manifest :: jsval where
  "boundary_manifest =
     JObj [(''generated'', JStr ''2024-01-01T00:00:00.000Z''),
           (''directories'', JObj boundary_entries)]"

text \<open>The entry that \<open>createDirectoryEntry()\<close> returns for no argument.\<close>

definition default_fields :: "string \<Rightarrow> (string \<times> jsval) list" where
  "default_fields now =
     [(''purpose'', JStr []),
      (''complexity'', JNum (Fin 1)),
      (''changeFrequency'', JStr ''Unknown''),
      (''entryPoints'', JArr []),
      (''internalDeps'', JArr []),
      (''externalDeps'', JArr []),
      (''readmePath'', JStr []),
      (''keyFiles'', JArr []),
      (''subdirectories'', JArr []),
      (''lastUpdated'', JStr now)]"

text \<open>An entry all of whose fields conform and that has a \<open>purpose\<close>, and a manifest
  with a usable timestamp whose entries are all such.\<close>

definition entry_ok :: "jsval \<Rightarrow> bool" where
  "entry_ok v =
     (case v of
        JObj kvs \<Rightarrow> list_all (\<lambda>(k, x). field_ok k x) kvs \<and> ''purpose'' \<in> fst ` set kvs
      | _ \<Rightarrow> False)"

definition manifest_ok :: "(jsval \<Rightarrow> bool) \<Rightarrow> jsval \<Rightarrow> bool" where
  "manifest_ok date_nan m =
     (case m of
        JObj mkvs \<Rightarrow>
          (case obj_get mkvs ''generated'' of JStr t \<Rightarrow> timestamp_ok date_nan t | _ \<Rightarrow> False)
          \<and> (case obj_get mkvs ''directories'' of
                JObj ds \<Rightarrow> list_all (\<lambda>(p, v). entry_ok v) ds
              | _ \<Rightarrow> False)
      | _ \<Rightarrow> False)"

text \<open>The manifest that \<open>updateMap\<close> builds from no manifest, the path \<open>/src\<close>
  and a partial, then serialised, parsed and validated; and the same for an entry of
  \<open>createDirectoryEntry\<close> stored in an empty manifest. The date parser accepts
  the clock reading only.\<close>

definition clock :: string where
  "clock = ''2024-01-01T00:00:00.000Z''"

definition update_then_validate :: "jsval \<Rightarrow> error + validation" where
  "update_then_validate dirInfo =
     bind_err (updateMap clock JUndefined ''/src'' dirInfo)
       (validate_roundtrip (\<lambda>v. v \<noteq> JStr clock))"

definition create_then_validate :: "jsval \<Rightarrow> error + validation" where
  "create_then_validate info =
     bind_err (createDirectoryEntry clock info) (\<lambda>entry.
       validate_roundtrip (\<lambda>v. v \<noteq> JStr clock)
         (JObj [(''generated'', JStr clock), (''directories'', JObj [(''/src'', entry)])]))"

text \<open>An entry that \<open>validateDirectoryEntry\<close> can read: it is not \<open>null\<close>, and
  if it is an object whose \<open>keyFiles\<close> is an array, no element of that array is
  \<open>null\<close> or \<open>undefined\<close>.\<close>

definition readable_entry :: "jsval \<Rightarrow> bool" where
  "readable_entry v =
     (case v of
        JNull \<Rightarrow> False
      | JObj kvs \<Rightarrow>
          (case obj_get kvs ''keyFiles'' of
             JArr kfs \<Rightarrow> list_all (\<lambda>kf. kf \<noteq> JNull \<and> kf \<noteq> JUndefined) kfs
           | _ \<Rightarrow> True)
      | _ \<Rightarrow> True)"

section \<open>Properties\<close>

subsection \<open>The directory scan\<close>

lemma distinct_set_add: "distinct ds \<Longrightarrow> distinct (set_add ds d)"
  by (simp add: set_add_def)

lemma distinct_foldl_set_add:
  "distinct ds \<Longrightarrow> distinct (foldl (\<lambda>acc i. set_add acc (f i)) ds is)"
  by (induction "is" arbitrary: ds) (simp_all add: distinct_set_add)

lemma distinct_add_parents: "distinct ds \<Longrightarrow> distinct (add_parents ds file)"
  by (simp add: add_parents_def Let_def distinct_foldl_set_add)

lemma distinct_visit: "distinct ds \<Longrightarrow> distinct (visit e ds file)"
  by (simp add: visit_def distinct_add_parents distinct_set_add split: option.split stat.split)

lemma distinct_foldl_visit: "distinct ds \<Longrightarrow> distinct (foldl (visit e) ds files)"
  by (induction files arbitrary: ds) (simp_all add: distinct_visit)

lemma findAllDirectories_sorted: "sorted (findAllDirectories e r ig)"
  by (simp add: findAllDirectories_def Let_def)

lemma findAllDirectories_distinct: "distinct (findAllDirectories e r ig)"
  by (simp add: findAllDirectories_def Let_def distinct_foldl_visit)

lemma scenario_current:
  "findAllDirectories (tree_env scenario_tree m) (rootPath scenario_config) (ignore scenario_config)
     = [''/src'', ''/src/api'']"
  by (simp add: findAllDirectories_def tree_env_def scenario_tree_def scenario_config_def
      ignored_def hidden_def visit_def tree_stat_def add_parents_def set_add_def
      replace_backslash_def)

text \<open>
  Claim C1. In the scenario of a root that holds \<open>/src\<close>, \<open>/src/api\<close> and
  \<open>/node_modules/pkg\<close>, scanned with the ignore list \<open>["node_modules"]\<close>, the
  scan returns \<open>newDirs = ["/src", "/src/api"]\<close>, no missing and no unchanged
  directory and the counts 2, 2, 0, 0, both when there is no manifest file and when the
  manifest is empty; \<open>/node_modules\<close> is not among the directories found.
\<close>

theorem scenario_scan:
  "scanDirectories (tree_env scenario_tree None) scenario_config = scenario_result
   \<and> scanDirectories (tree_env scenario_tree (Some (createEmptyMap ''2024-01-01T00:00:00.000Z'')))
        scenario_config = scenario_result
   \<and> ''/node_modules'' \<notin> set (findAllDirectories (tree_env scenario_tree None)
        (rootPath scenario_config) (ignore scenario_config))"
proof -
  have absent: "existing_keys (readExistingMap (tree_env scenario_tree None) p) = []" for p
    by (simp add: existing_keys_def readExistingMap_def tree_env_def)
  have empty: "existing_keys (readExistingMap
      (tree_env scenario_tree (Some (createEmptyMap ''2024-01-01T00:00:00.000Z''))) p) = []" for p
    by (simp add: existing_keys_def readExistingMap_def tree_env_def createEmptyMap_def
        obj_get_def js_or_def Object_keys_def)
  have cmp: "compareDirectories [''/src'', ''/src/api''] [] r = scenario_result" for r
    by (simp add: compareDirectories_def scenario_result_def)
  show ?thesis
    by (simp add: scanDirectories_def Let_def absent empty scenario_current cmp)
qed

text \<open>
  Claim C2. For every environment and configuration, with \<open>existingDirs\<close> the keys
  of the manifest read and \<open>currentDirs\<close> the directories found: \<open>newDirs\<close> is
  disjoint from \<open>existingDirs\<close>, \<open>missingDirs\<close> is a subset of
  \<open>existingDirs\<close>, \<open>unchangedDirs\<close> is the intersection of \<open>currentDirs\<close>
  and \<open>existingDirs\<close>, and each of the three lists is sorted ascending without
  duplicates. That \<open>Object.keys\<close> lists no key twice is the hypothesis on the
  manifest.
\<close>

theorem scan_partition:
  fixes e :: env and cfg :: config
  defines "existingDirs \<equiv> existing_keys (readExistingMap e (outputPath cfg))"
      and "currentDirs \<equiv> findAllDirectories e (rootPath cfg) (ignore cfg)"
      and "r \<equiv> scanDirectories e cfg"
  assumes keys: "distinct existingDirs"
  shows "set (newDirs r) \<inter> set existingDirs = {}
       \<and> set (newDirs r) \<subseteq> set currentDirs
       \<and> set (missingDirs r) \<subseteq> set existingDirs
       \<and> set (missingDirs r) \<inter> set currentDirs = {}
       \<and> set (unchangedDirs r) = set currentDirs \<inter> set existingDirs
       \<and> sorted (newDirs r) \<and> distinct (newDirs r)
       \<and> sorted (missingDirs r) \<and> distinct (missingDirs r)
       \<and> sorted (unchangedDirs r) \<and> distinct (unchangedDirs r)"
proof -
  have r: "r = compareDirectories currentDirs existingDirs (rootPath cfg)"
    by (simp add: r_def scanDirectories_def Let_def existingDirs_def currentDirs_def)
  have cur: "distinct currentDirs"
    by (simp add: currentDirs_def findAllDirectories_distinct)
  have 1: "set (newDirs r) \<inter> set existingDirs = {}"
    by (auto simp: r compareDirectories_def Let_def)
  have 2: "set (newDirs r) \<subseteq> set currentDirs"
    by (auto simp: r compareDirectories_def Let_def)
  have 3: "set (missingDirs r) \<subseteq> set existingDirs"
    by (auto simp: r compareDirectories_def Let_def)
  have 4: "set (missingDirs r) \<inter> set currentDirs = {}"
    by (auto simp: r compareDirectories_def Let_def)
  have 5: "set (unchangedDirs r) = set currentDirs \<inter> set existingDirs"
    by (auto simp: r compareDirectories_def Let_def)
  have 6: "sorted (newDirs r) \<and> sorted (missingDirs r) \<and> sorted (unchangedDirs r)"
    by (simp add: r compareDirectories_def Let_def)
  have 7: "distinct (newDirs r) \<and> distinct (missingDirs r) \<and> distinct (unchangedDirs r)"
    using keys cur by (simp add: r compareDirectories_def Let_def)
  show ?thesis
    using 1 2 3 4 5 6 7 by blast
qed

theorem scan_partition_witness:
  "distinct (existing_keys (readExistingMap (tree_env scenario_tree (Some old_manifest))
      (outputPath scenario_config)))
   \<and> set (missingDirs (scanDirectories (tree_env scenario_tree (Some old_manifest)) scenario_config))
       \<subseteq> set (existing_keys (readExistingMap (tree_env scenario_tree (Some old_manifest))
            (outputPath scenario_config)))
   \<and> sorted (missingDirs (scanDirectories (tree_env scenario_tree (Some old_manifest)) scenario_config))
   \<and> missingDirs (scanDirectories (tree_env scenario_tree (Some old_manifest)) scenario_config)
       = [''/old'']"
proof -
  have k: "existing_keys (readExistingMap (tree_env scenario_tree (Some old_manifest))
      (outputPath scenario_config)) = [''/src'', ''/old'']"
    by (simp add: existing_keys_def readExistingMap_def tree_env_def old_manifest_def
        obj_get_def js_or_def Object_keys_def)
  have d: "distinct (existing_keys (readExistingMap (tree_env scenario_tree (Some old_manifest))
      (outputPath scenario_config)))"
    by (simp add: k)
  have m: "missingDirs (scanDirectories (tree_env scenario_tree (Some old_manifest)) scenario_config)
      = [''/old'']"
    by (simp add: scanDirectories_def Let_def k scenario_current compareDirectories_def)
  show ?thesis
    using d m scan_partition [of "tree_env scenario_tree (Some old_manifest)" scenario_config, OF d]
    by simp
qed

text \<open>
  Claim C6. When the manifest file exists but reading it throws or its text is not
  JSON, the manifest is read as \<open>null\<close> and the scan returns what it returns when
  the file does not exist: every directory found is in \<open>newDirs\<close>, and
  \<open>missingDirs\<close> and \<open>unchangedDirs\<close> are empty.
\<close>

theorem corrupt_manifest_is_empty:
  assumes ex: "existsSync e (outputPath cfg)"
      and bad: "readFileSync e (outputPath cfg) = None
                \<or> (\<exists>s. readFileSync e (outputPath cfg) = Some s \<and> JSON_parse e s = None)"
  shows "readExistingMap e (outputPath cfg) = JNull
       \<and> scanDirectories e cfg = scanDirectories (e\<lparr>existsSync := (\<lambda>p. False)\<rparr>) cfg
       \<and> newDirs (scanDirectories e cfg) = findAllDirectories e (rootPath cfg) (ignore cfg)
       \<and> missingDirs (scanDirectories e cfg) = []
       \<and> unchangedDirs (scanDirectories e cfg) = []"
proof -
  have null: "readExistingMap e (outputPath cfg) = JNull"
    using ex bad by (auto simp: readExistingMap_def)
  have same: "findAllDirectories (e\<lparr>existsSync := (\<lambda>p. False)\<rparr>) = findAllDirectories e"
    by (intro ext) (simp add: findAllDirectories_def visit_def [abs_def])
  have absent: "readExistingMap (e\<lparr>existsSync := (\<lambda>p. False)\<rparr>) (outputPath cfg) = JNull"
    by (simp add: readExistingMap_def)
  have srt: "sort (findAllDirectories e (rootPath cfg) (ignore cfg))
      = findAllDirectories e (rootPath cfg) (ignore cfg)"
    by (simp add: sorted_sort_id findAllDirectories_sorted)
  have s1: "scanDirectories e cfg
      = compareDirectories (findAllDirectories e (rootPath cfg) (ignore cfg)) [] (rootPath cfg)"
    by (simp add: null scanDirectories_def Let_def existing_keys_def)
  have s2: "scanDirectories (e\<lparr>existsSync := (\<lambda>p. False)\<rparr>) cfg
      = compareDirectories (findAllDirectories e (rootPath cfg) (ignore cfg)) [] (rootPath cfg)"
    by (simp add: absent same scanDirectories_def Let_def existing_keys_def)
  have n: "newDirs (scanDirectories e cfg) = findAllDirectories e (rootPath cfg) (ignore cfg)"
    by (simp add: s1 compareDirectories_def Let_def srt)
  have m: "missingDirs (scanDirectories e cfg) = [] \<and> unchangedDirs (scanDirectories e cfg) = []"
    by (simp add: s1 compareDirectories_def Let_def)
  show ?thesis
    using null s1 s2 n m by simp
qed

theorem corrupt_manifest_is_empty_witness:
  "existsSync corrupt_env (outputPath scenario_config)
   \<and> (\<exists>s. readFileSync corrupt_env (outputPath scenario_config) = Some s
          \<and> JSON_parse corrupt_env s = None)
   \<and> newDirs (scanDirectories corrupt_env scenario_config) = [''/src'', ''/src/api'']
   \<and> missingDirs (scanDirectories corrupt_env scenario_config) = []"
proof -
  have ex: "existsSync corrupt_env (outputPath scenario_config)"
    by (simp add: corrupt_env_def)
  have bad: "readFileSync corrupt_env (outputPath scenario_config) = None
      \<or> (\<exists>s. readFileSync corrupt_env (outputPath scenario_config) = Some s
             \<and> JSON_parse corrupt_env s = None)"
    by (simp add: corrupt_env_def)
  have rd: "\<exists>s. readFileSync corrupt_env (outputPath scenario_config) = Some s
             \<and> JSON_parse corrupt_env s = None"
    by (simp add: corrupt_env_def)
  have cur: "findAllDirectories corrupt_env (rootPath scenario_config) (ignore scenario_config)
      = [''/src'', ''/src/api'']"
    by (simp add: corrupt_env_def findAllDirectories_def tree_env_def scenario_tree_def
        scenario_config_def ignored_def hidden_def visit_def tree_stat_def add_parents_def
        set_add_def replace_backslash_def)
  show ?thesis
    using ex rd cur corrupt_manifest_is_empty [OF ex bad, THEN conjunct2, THEN conjunct2]
    by simp
qed

subsection \<open>Verification of READMEs\<close>

text \<open>
  Claim C7. For a manifest whose \<open>directories\<close> has no entry, \<open>verify\<close> returns
  \<open>{valid: true, missingReadmes: [], totalDirectories: 0, documented: 0}\<close>, without
  an error text. The hypotheses say that the manifest and its \<open>directories\<close> are
  present (truthy) and that \<open>directories\<close> has no property of its own.
\<close>

theorem verify_empty:
  assumes "truthy m" and "js_get m ''directories'' = Inr d" and "truthy d" and "own_props d = []"
  shows "verifyDocumentation e cfg m =
           Inr \<lparr> v_valid = True, missingReadmes = [], totalDirectories = Some 0,
                 v_documented = Some 0, v_error = None \<rparr>"
  using assms by (simp add: verifyDocumentation_def Object_entries_def Object_keys_def)

theorem verify_empty_witness:
  "verifyDocumentation (config_at []) scenario_config (createEmptyMap ''2024-01-01T00:00:00.000Z'') =
           Inr \<lparr> v_valid = True, missingReadmes = [], totalDirectories = Some 0,
                 v_documented = Some 0, v_error = None \<rparr>"
  using verify_empty [of "createEmptyMap ''2024-01-01T00:00:00.000Z''" "JObj []" "config_at []" scenario_config]
  by (simp add: createEmptyMap_def obj_get_def)

subsection \<open>The config loader\<close>

lemma findConfig_root: "findConfig e [] = None"
  by (simp add: findConfig.simps)

lemma findConfig_snoc:
  "findConfig e (d @ [s]) =
     (if existsSync e (abs_path (d @ [s, CONFIG_FILENAME])) then Some (abs_path (d @ [s, CONFIG_FILENAME]))
      else findConfig e d)"
  by (subst findConfig.simps) (simp add: Let_def)

text \<open>
  Claim C8 asks that the search covers the starting directory and every ancestor up to
  and including the file system root. The loop of \<open>findConfig\<close> stops when it
  reaches the root and never looks into it: with the config file present in the root
  directory only, the search returns \<open>null\<close>, from the root itself and from
  \<open>/home/user\<close>.
\<close>

theorem findConfig_skips_root:
  "existsSync (config_at ''/.crmbl-config.json'') (abs_path ([] @ [CONFIG_FILENAME]))
   \<and> findConfig (config_at ''/.crmbl-config.json'') [] = None
   \<and> findConfig (config_at ''/.crmbl-config.json'') [''home'', ''user''] = None"
  by (simp add: findConfig.simps config_at_def abs_path_def CONFIG_FILENAME_def)

text \<open>
  Claim C10. When the config file exists and reading it throws, or its text is not
  JSON, \<open>loadConfig\<close> returns the default configuration (the catch swallows the
  exception).
\<close>

theorem loadConfig_fallback:
  assumes "existsSync e (path_join e cwd CONFIG_FILENAME)"
      and "readFileSync e (path_join e cwd CONFIG_FILENAME) = None
           \<or> (\<exists>s. readFileSync e (path_join e cwd CONFIG_FILENAME) = Some s \<and> JSON_parse e s = None)"
  shows "loadConfig e cwd = JObj DEFAULT_CONFIG"
proof -
  have copy: "spread [] DEFAULT_CONFIG = DEFAULT_CONFIG"
    by (simp add: spread_def DEFAULT_CONFIG_def obj_set_def)
  from assms have "\<exists>err. loadConfig_try e (path_join e cwd CONFIG_FILENAME) = Inl err"
    by (auto simp: loadConfig_try_def)
  then show ?thesis
    by (auto simp: loadConfig_def Let_def copy)
qed

theorem loadConfig_fallback_witness:
  "existsSync corrupt_env (path_join corrupt_env ''.'' CONFIG_FILENAME)
   \<and> (\<exists>s. readFileSync corrupt_env (path_join corrupt_env ''.'' CONFIG_FILENAME) = Some s
          \<and> JSON_parse corrupt_env s = None)
   \<and> loadConfig corrupt_env ''.'' = JObj DEFAULT_CONFIG
   \<and> existsSync (config_at ''./.crmbl-config.json'') (path_join (config_at ''./.crmbl-config.json'') ''.'' CONFIG_FILENAME)
   \<and> readFileSync (config_at ''./.crmbl-config.json'') (path_join (config_at ''./.crmbl-config.json'') ''.'' CONFIG_FILENAME) = None
   \<and> loadConfig (config_at ''./.crmbl-config.json'') ''.'' = JObj DEFAULT_CONFIG"
proof -
  have ex: "existsSync corrupt_env (path_join corrupt_env ''.'' CONFIG_FILENAME)"
    by (simp add: corrupt_env_def)
  have rd: "\<exists>s. readFileSync corrupt_env (path_join corrupt_env ''.'' CONFIG_FILENAME) = Some s
      \<and> JSON_parse corrupt_env s = None"
    by (simp add: corrupt_env_def)
  have ex2: "existsSync (config_at ''./.crmbl-config.json'')
      (path_join (config_at ''./.crmbl-config.json'') ''.'' CONFIG_FILENAME)"
    by (simp add: config_at_def CONFIG_FILENAME_def)
  have rd2: "readFileSync (config_at ''./.crmbl-config.json'')
      (path_join (config_at ''./.crmbl-config.json'') ''.'' CONFIG_FILENAME) = None"
    by (simp add: config_at_def)
  show ?thesis
    using ex rd ex2 rd2
      loadConfig_fallback [of corrupt_env "''.''", OF ex disjI2 [OF rd]]
      loadConfig_fallback [of "config_at ''./.crmbl-config.json''" "''.''", OF ex2 disjI1 [OF rd2]]
    by simp
qed

subsection \<open>Manifest validation\<close>

text \<open>
  Claim C3 asks that \<open>validateMap\<close> never throws, also on a manifest whose
  \<open>directories\<close> holds a \<open>null\<close> entry. The guard of
  \<open>validateDirectoryEntry\<close> tests \<open>typeof dirInfo !== 'object'\<close>, which
  \<open>null\<close> passes, and the next line reads \<open>dirInfo.purpose\<close>: on such a
  manifest the validation throws a TypeError. It throws as well on an entry whose
  \<open>keyFiles\<close> holds \<open>null\<close>, where the loop reads \<open>kf.file\<close>.
\<close>

theorem validateMap_null_entry_throws:
  "validateMap (\<lambda>v. False)
     (JObj [(''generated'', JStr ''2024-01-01T00:00:00.000Z''),
            (''directories'', JObj [(''/src'', JNull)])]) = Inl TypeError
   \<and> validateMap (\<lambda>v. False)
     (JObj [(''generated'', JStr ''2024-01-01T00:00:00.000Z''),
            (''directories'',
             JObj [(''/src'', JObj [(''purpose'', JStr ''api''), (''keyFiles'', JArr [JNull])])])])
       = Inl TypeError"
proof -
  have a: "validateDirectoryEntry ''/src'' JNull = Inl TypeError"
    by (simp add: validateDirectoryEntry_def bind_err_def)
  have b: "validateDirectoryEntry ''/src''
      (JObj [(''purpose'', JStr ''api''), (''keyFiles'', JArr [JNull])]) = Inl TypeError"
    by (simp add: validateDirectoryEntry_def Let_def bind_err_def obj_get_def arrayFields_def)
  show ?thesis
    by (simp add: validateMap_def bind_err_def obj_get_def Object_entries_def a b)
qed

subsection \<open>Directory entries\<close>

lemma bind_err_Inr: "bind_err (Inr x) f = f x"
  by (simp add: bind_err_def)

lemma bind_err_Inl: "bind_err (Inl x) f = Inl x"
  by (simp add: bind_err_def)

lemma obj_get_Nil: "obj_get [] k = JUndefined"
  by (simp add: obj_get_def)

lemma obj_get_Cons: "obj_get ((k, v) # kvs) k' = (if k = k' then v else obj_get kvs k')"
  by (simp add: obj_get_def)

lemma js_or_falsy: "\<not> truthy a \<Longrightarrow> js_or a b = b"
  by (simp add: js_or_def)

lemma js_or_truthy: "truthy a \<Longrightarrow> js_or a b = a"
  by (simp add: js_or_def)

lemma createDirectoryEntry_object:
  "createDirectoryEntry now (JObj info) = Inr (JObj
     [(''purpose'', js_or (obj_get info ''purpose'') (JStr [])),
      (''complexity'', js_or (obj_get info ''complexity'') (JNum (Fin 1))),
      (''changeFrequency'', js_or (obj_get info ''changeFrequency'') (JStr ''Unknown'')),
      (''entryPoints'', js_or (obj_get info ''entryPoints'') (JArr [])),
      (''internalDeps'', js_or (obj_get info ''internalDeps'') (JArr [])),
      (''externalDeps'', js_or (obj_get info ''externalDeps'') (JArr [])),
      (''readmePath'', js_or (obj_get info ''readmePath'') (JStr [])),
      (''keyFiles'', js_or (obj_get info ''keyFiles'') (JArr [])),
      (''subdirectories'', js_or (obj_get info ''subdirectories'') (JArr [])),
      (''lastUpdated'', js_or (obj_get info ''lastUpdated'') (JStr now))])"
  by (simp add: createDirectoryEntry_def bind_err_Inr)

text \<open>
  Claim C9. \<open>createDirectoryEntry\<close> on a partial object returns an entry with the ten
  fields of the schema, and a field whose supplied value is falsy (absent, \<open>0\<close>,
  the empty string, \<open>null\<close>, \<open>false\<close>, NaN) has its default: the empty string
  for \<open>purpose\<close> and \<open>readmePath\<close>, 1 for \<open>complexity\<close>, \<open>Unknown\<close> for
  \<open>changeFrequency\<close>, the empty array for the five list fields and the current
  timestamp for \<open>lastUpdated\<close>. A truthy supplied value is kept.
\<close>

theorem createDirectoryEntry_falsy:
  "\<exists>entry. createDirectoryEntry now (JObj info) = Inr (JObj entry)
     \<and> map fst entry = [''purpose'', ''complexity'', ''changeFrequency'', ''entryPoints'',
          ''internalDeps'', ''externalDeps'', ''readmePath'', ''keyFiles'', ''subdirectories'',
          ''lastUpdated'']
     \<and> (\<not> truthy (obj_get info ''purpose'') \<longrightarrow> obj_get entry ''purpose'' = JStr [])
     \<and> (\<not> truthy (obj_get info ''complexity'') \<longrightarrow> obj_get entry ''complexity'' = JNum (Fin 1))
     \<and> (\<not> truthy (obj_get info ''changeFrequency'') \<longrightarrow> obj_get entry ''changeFrequency'' = JStr ''Unknown'')
     \<and> (\<not> truthy (obj_get info ''entryPoints'') \<longrightarrow> obj_get entry ''entryPoints'' = JArr [])
     \<and> (\<not> truthy (obj_get info ''internalDeps'') \<longrightarrow> obj_get entry ''internalDeps'' = JArr [])
     \<and> (\<not> truthy (obj_get info ''externalDeps'') \<longrightarrow> obj_get entry ''externalDeps'' = JArr [])
     \<and> (\<not> truthy (obj_get info ''readmePath'') \<longrightarrow> obj_get entry ''readmePath'' = JStr [])
     \<and> (\<not> truthy (obj_get info ''keyFiles'') \<longrightarrow> obj_get entry ''keyFiles'' = JArr [])
     \<and> (\<not> truthy (obj_get info ''subdirectories'') \<longrightarrow> obj_get entry ''subdirectories'' = JArr [])
     \<and> (\<not> truthy (obj_get info ''lastUpdated'') \<longrightarrow> obj_get entry ''lastUpdated'' = JStr now)
     \<and> (\<forall>k \<in> set (map fst entry). truthy (obj_get info k) \<longrightarrow> obj_get entry k = obj_get info k)"
  unfolding createDirectoryEntry_object
  apply (intro exI conjI)
               apply (rule refl)
              apply simp
             apply (simp add: obj_get_Cons js_or_falsy)
            apply (simp add: obj_get_Cons js_or_falsy)
           apply (simp add: obj_get_Cons js_or_falsy)
          apply (simp add: obj_get_Cons js_or_falsy)
         apply (simp add: obj_get_Cons js_or_falsy)
        apply (simp add: obj_get_Cons js_or_falsy)
       apply (simp add: obj_get_Cons js_or_falsy)
      apply (simp add: obj_get_Cons js_or_falsy)
     apply (simp add: obj_get_Cons js_or_falsy)
    apply (simp add: obj_get_Cons js_or_falsy)
  apply (simp add: obj_get_Cons js_or_truthy)
  done

theorem createDirectoryEntry_falsy_witness:
  "\<exists>entry. createDirectoryEntry ''2024-01-01T00:00:00.000Z''
        (JObj [(''complexity'', JNum (Fin 0)), (''lastUpdated'', JStr []), (''purpose'', JStr ''api'')])
        = Inr (JObj entry)
     \<and> obj_get entry ''complexity'' = JNum (Fin 1)
     \<and> obj_get entry ''lastUpdated'' = JStr ''2024-01-01T00:00:00.000Z''
     \<and> obj_get entry ''purpose'' = JStr ''api''"
  using createDirectoryEntry_falsy [of "''2024-01-01T00:00:00.000Z''"
      "[(''complexity'', JNum (Fin 0)), (''lastUpdated'', JStr []), (''purpose'', JStr ''api'')]"]
  apply (elim exE conjE)
  apply (intro exI conjI)
     apply assumption
    apply (simp add: obj_get_Cons)
   apply (simp add: obj_get_Cons)
  apply (simp add: obj_get_Cons)
  done

subsection \<open>The complexity rule\<close>

lemma bind_err_eq_Inr: "bind_err m f = Inr y \<longleftrightarrow> (\<exists>x. m = Inr x \<and> f x = Inr y)"
  by (cases m) (simp_all add: bind_err_def)

lemma last_complexity_error: "last (complexity_error pre) = CHR ''5''"
  by (simp add: complexity_error_def)

lemma complexity_error_inj:
  "complexity_error (error_prefix p) = complexity_error (error_prefix q) \<longleftrightarrow> p = q"
  by (simp add: complexity_error_def error_prefix_def quoted_def)

lemma complexity_check_cases:
  "complexity_check pre c = [] \<or> complexity_check pre c = [complexity_error pre]"
  by (simp add: complexity_check_def)

lemma count_complexity_check:
  "count_list (complexity_check pre c) (complexity_error pre) = length (complexity_check pre c)"
  using complexity_check_cases [of pre c] by auto

lemma last_changeFrequency_check:
  "m \<in> set (changeFrequency_check pre c) \<Longrightarrow> last m = CHR ''n''"
  by (simp add: changeFrequency_check_def validFrequencies_def split: if_splits)

lemma last_arrayFields_check:
  "arrayFields_check pre v fs = Inr errs \<Longrightarrow> m \<in> set errs \<Longrightarrow> last m = CHR ''y''"
proof (induction fs arbitrary: errs)
  case Nil
  then show ?case by simp
next
  case (Cons f fs)
  from Cons.prems(1) obtain x rest where
    r: "arrayFields_check pre v fs = Inr rest"
    and e: "errs = (if x \<noteq> JUndefined \<and> \<not> isArray x
                     then [pre @ '' '' @ f @ '' must be an array''] else []) @ rest"
    by (auto split: sum.splits)
  from Cons.prems(2) e consider "m = pre @ '' '' @ f @ '' must be an array''" | "m \<in> set rest"
    by (auto split: if_splits)
  then show ?case
  proof cases
    case 1
    then show ?thesis by simp
  next
    case 2
    with Cons.IH r show ?thesis by blast
  qed
qed

lemma last_keyFiles_check:
  "keyFiles_check pre idx kfs = Inr errs \<Longrightarrow> m \<in> set errs \<Longrightarrow> last m = CHR ''d''"
proof (induction kfs arbitrary: idx errs)
  case Nil
  then show ?case by simp
next
  case (Cons kf kfs)
  from Cons.prems(1) obtain fv dv rest where
    r: "keyFiles_check pre (Suc idx) kfs = Inr rest"
    and e: "errs = (if \<not> truthy fv
                    then [pre @ '' keyFiles['' @ show_nat idx @ ''] missing '' @ quoted ''file'' @ '' field'']
                    else [])
                 @ (if \<not> truthy dv
                    then [pre @ '' keyFiles['' @ show_nat idx @ ''] missing '' @ quoted ''description'' @ '' field'']
                    else [])
                 @ rest"
    by (auto split: sum.splits)
  from Cons.prems(2) e consider
      "m = pre @ '' keyFiles['' @ show_nat idx @ ''] missing '' @ quoted ''file'' @ '' field''"
    | "m = pre @ '' keyFiles['' @ show_nat idx @ ''] missing '' @ quoted ''description'' @ '' field''"
    | "m \<in> set rest"
    by (auto split: if_splits)
  then show ?case
  proof cases
    case 1
    then show ?thesis by simp
  next
    case 2
    then show ?thesis by simp
  next
    case 3
    with Cons.IH r show ?thesis by blast
  qed
qed


lemma last_keyFiles_part:
  assumes "(if kfv \<noteq> JUndefined then
              (case kfv of
                 JArr kfs \<Rightarrow> keyFiles_check pre 0 kfs
               | _ \<Rightarrow> Inr [pre @ '' keyFiles must be an array''])
            else Inr []) = Inr kf"
      and "m \<in> set kf"
  shows "last m \<noteq> CHR ''5''"
proof (cases kfv)
  case (JArr kfs)
  with assms have "keyFiles_check pre 0 kfs = Inr kf" by simp
  from last_keyFiles_check [OF this assms(2)] show ?thesis by simp
qed (use assms in \<open>auto split: if_splits\<close>)

lemma validateDirectoryEntry_object:
  assumes "validateDirectoryEntry q (JObj kvs) = Inr errs"
  obtains arr kf where
    "arrayFields_check (error_prefix q) (JObj kvs) arrayFields = Inr arr"
    "(if obj_get kvs ''keyFiles'' \<noteq> JUndefined then
        (case obj_get kvs ''keyFiles'' of
           JArr kfs \<Rightarrow> keyFiles_check (error_prefix q) 0 kfs
         | _ \<Rightarrow> Inr [error_prefix q @ '' keyFiles must be an array''])
      else Inr []) = Inr kf"
    "errs = (if obj_get kvs ''purpose'' = JUndefined
             then [error_prefix q @ '' missing '' @ quoted ''purpose'' @ '' field''] else [])
          @ complexity_check (error_prefix q) (obj_get kvs ''complexity'')
          @ changeFrequency_check (error_prefix q) (obj_get kvs ''changeFrequency'')
          @ arr @ kf"
proof -
  from assms have
    "bind_err (arrayFields_check (error_prefix q) (JObj kvs) arrayFields) (\<lambda>arrayErrors.
     bind_err (if obj_get kvs ''keyFiles'' \<noteq> JUndefined then
                 (case obj_get kvs ''keyFiles'' of
                    JArr kfs \<Rightarrow> keyFiles_check (error_prefix q) 0 kfs
                  | _ \<Rightarrow> Inr [error_prefix q @ '' keyFiles must be an array''])
               else Inr []) (\<lambda>keyFilesErrors.
       Inr ((if obj_get kvs ''purpose'' = JUndefined
             then [error_prefix q @ '' missing '' @ quoted ''purpose'' @ '' field''] else [])
          @ complexity_check (error_prefix q) (obj_get kvs ''complexity'')
          @ changeFrequency_check (error_prefix q) (obj_get kvs ''changeFrequency'')
          @ arrayErrors @ keyFilesErrors))) = Inr errs"
    by (simp add: validateDirectoryEntry_def Let_def bind_err_Inr)
  then obtain arr kf where
    "arrayFields_check (error_prefix q) (JObj kvs) arrayFields = Inr arr"
    "(if obj_get kvs ''keyFiles'' \<noteq> JUndefined then
        (case obj_get kvs ''keyFiles'' of
           JArr kfs \<Rightarrow> keyFiles_check (error_prefix q) 0 kfs
         | _ \<Rightarrow> Inr [error_prefix q @ '' keyFiles must be an array''])
      else Inr []) = Inr kf"
    "errs = (if obj_get kvs ''purpose'' = JUndefined
             then [error_prefix q @ '' missing '' @ quoted ''purpose'' @ '' field''] else [])
          @ complexity_check (error_prefix q) (obj_get kvs ''complexity'')
          @ changeFrequency_check (error_prefix q) (obj_get kvs ''changeFrequency'')
          @ arr @ kf"
    unfolding bind_err_eq_Inr by (elim exE conjE) (simp only: sum.inject)
  then show thesis by (rule that)
qed

lemma validateDirectoryEntry_array:
  "validateDirectoryEntry q (JArr xs)
     = Inr [error_prefix q @ '' missing '' @ quoted ''purpose'' @ '' field'']"
  by (simp add: validateDirectoryEntry_def Let_def bind_err_Inr arrayFields_def
      complexity_check_def changeFrequency_check_def)

lemma validateDirectoryEntry_messages:
  assumes "validateDirectoryEntry q v = Inr errs" and "m \<in> set errs"
  shows "m = complexity_error (error_prefix q) \<or> last m \<noteq> CHR ''5''"
proof (cases v)
  case (JObj kvs)
  with assms(1) obtain arr kf where
    a: "arrayFields_check (error_prefix q) (JObj kvs) arrayFields = Inr arr"
    and k: "(if obj_get kvs ''keyFiles'' \<noteq> JUndefined then
        (case obj_get kvs ''keyFiles'' of
           JArr kfs \<Rightarrow> keyFiles_check (error_prefix q) 0 kfs
         | _ \<Rightarrow> Inr [error_prefix q @ '' keyFiles must be an array''])
      else Inr []) = Inr kf"
    and e: "errs = (if obj_get kvs ''purpose'' = JUndefined
             then [error_prefix q @ '' missing '' @ quoted ''purpose'' @ '' field''] else [])
          @ complexity_check (error_prefix q) (obj_get kvs ''complexity'')
          @ changeFrequency_check (error_prefix q) (obj_get kvs ''changeFrequency'')
          @ arr @ kf"
    by (auto elim: validateDirectoryEntry_object)
  from assms(2) e consider
      "m = error_prefix q @ '' missing '' @ quoted ''purpose'' @ '' field''"
    | "m \<in> set (complexity_check (error_prefix q) (obj_get kvs ''complexity''))"
    | "m \<in> set (changeFrequency_check (error_prefix q) (obj_get kvs ''changeFrequency''))"
    | "m \<in> set arr" | "m \<in> set kf"
    by (auto split: if_splits)
  then show ?thesis
  proof cases
    case 1
    then show ?thesis by (simp add: quoted_def)
  next
    case 2
    with complexity_check_cases [of "error_prefix q" "obj_get kvs ''complexity''"]
    show ?thesis by auto
  next
    case 3
    from last_changeFrequency_check [OF this] show ?thesis by simp
  next
    case 4
    from last_arrayFields_check [OF a this] show ?thesis by simp
  next
    case 5
    from last_keyFiles_part [OF k this] show ?thesis by simp
  qed
next
  case (JArr xs)
  with assms show ?thesis by (auto simp: validateDirectoryEntry_array quoted_def)
next
  case JNull
  with assms show ?thesis by (simp add: validateDirectoryEntry_def Let_def bind_err_Inl)
qed (use assms in \<open>auto simp: validateDirectoryEntry_def Let_def\<close>)

lemma validateDirectoryEntry_other:
  assumes "validateDirectoryEntry q v = Inr errs" and "q \<noteq> p"
  shows "count_list errs (complexity_error (error_prefix p)) = 0"
proof -
  have "complexity_error (error_prefix p) \<notin> set errs"
  proof
    assume "complexity_error (error_prefix p) \<in> set errs"
    from validateDirectoryEntry_messages [OF assms(1) this] assms(2)
    show False by (simp add: complexity_error_inj last_complexity_error)
  qed
  then show ?thesis by (simp add: count_list_0_iff)
qed

lemma validateDirectoryEntry_count:
  assumes "validateDirectoryEntry p (JObj kvs) = Inr errs"
  shows "count_list errs (complexity_error (error_prefix p))
           = length (complexity_check (error_prefix p) (obj_get kvs ''complexity''))"
proof -
  from assms obtain arr kf where
    a: "arrayFields_check (error_prefix p) (JObj kvs) arrayFields = Inr arr"
    and k: "(if obj_get kvs ''keyFiles'' \<noteq> JUndefined then
        (case obj_get kvs ''keyFiles'' of
           JArr kfs \<Rightarrow> keyFiles_check (error_prefix p) 0 kfs
         | _ \<Rightarrow> Inr [error_prefix p @ '' keyFiles must be an array''])
      else Inr []) = Inr kf"
    and e: "errs = (if obj_get kvs ''purpose'' = JUndefined
             then [error_prefix p @ '' missing '' @ quoted ''purpose'' @ '' field''] else [])
          @ complexity_check (error_prefix p) (obj_get kvs ''complexity'')
          @ changeFrequency_check (error_prefix p) (obj_get kvs ''changeFrequency'')
          @ arr @ kf"
    by (auto elim: validateDirectoryEntry_object)
  let ?c = "complexity_error (error_prefix p)"
  have 1: "count_list (if obj_get kvs ''purpose'' = JUndefined
             then [error_prefix p @ '' missing '' @ quoted ''purpose'' @ '' field''] else []) ?c = 0"
    by (simp add: complexity_error_def quoted_def)
  have 3: "count_list (changeFrequency_check (error_prefix p) (obj_get kvs ''changeFrequency'')) ?c = 0"
    using last_changeFrequency_check [of ?c] by (auto simp: count_list_0_iff last_complexity_error)
  have 4: "count_list arr ?c = 0"
    using last_arrayFields_check [OF a, of ?c] by (auto simp: count_list_0_iff last_complexity_error)
  have 5: "count_list kf ?c = 0"
    using last_keyFiles_part [OF k, of ?c] by (auto simp: count_list_0_iff last_complexity_error)
  show ?thesis
    by (simp only: e count_list_append 1 3 4 5 count_complexity_check)
qed

lemma validate_entries_absent:
  "validate_entries ds = Inr errs \<Longrightarrow> p \<notin> fst ` set ds
     \<Longrightarrow> count_list errs (complexity_error (error_prefix p)) = 0"
proof (induction ds arbitrary: errs)
  case Nil
  then show ?case by simp
next
  case (Cons d ds)
  obtain q v where d: "d = (q, v)" by (cases d)
  from Cons.prems(1) d obtain e1 e2 where
    v: "validateDirectoryEntry q v = Inr e1" and r: "validate_entries ds = Inr e2"
    and e: "errs = e1 @ e2"
    by (auto split: sum.splits)
  from Cons.prems(2) d have "q \<noteq> p" "p \<notin> fst ` set ds" by auto
  with Cons.IH [OF r] validateDirectoryEntry_other [OF v] e show ?case by simp
qed

lemma validate_entries_count:
  "validate_entries ds = Inr errs \<Longrightarrow> distinct (map fst ds) \<Longrightarrow> (p, JObj kvs) \<in> set ds
     \<Longrightarrow> count_list errs (complexity_error (error_prefix p))
           = length (complexity_check (error_prefix p) (obj_get kvs ''complexity''))"
proof (induction ds arbitrary: errs)
  case Nil
  then show ?case by simp
next
  case (Cons d ds)
  obtain q v where d: "d = (q, v)" by (cases d)
  from Cons.prems(1) d obtain e1 e2 where
    v: "validateDirectoryEntry q v = Inr e1" and r: "validate_entries ds = Inr e2"
    and e: "errs = e1 @ e2"
    by (auto split: sum.splits)
  from Cons.prems(2) d have nq: "q \<notin> fst ` set ds" and dist: "distinct (map fst ds)" by auto
  show ?case
  proof (cases "(p, JObj kvs) = d")
    case True
    with d have pq: "q = p" "v = JObj kvs" by auto
    from validate_entries_absent [OF r] nq pq
    have "count_list e2 (complexity_error (error_prefix p)) = 0" by simp
    with validateDirectoryEntry_count [of p kvs e1] v pq e show ?thesis by simp
  next
    case False
    with Cons.prems(3) have mem: "(p, JObj kvs) \<in> set ds" by auto
    with nq have "q \<noteq> p" by force
    from validateDirectoryEntry_other [OF v this] Cons.IH [OF r dist mem] e
    show ?thesis by simp
  qed
qed

text \<open>
  Claim C5. In a manifest that \<open>validateMap\<close> validates, an entry object whose
  \<open>complexity\<close> is 0, 6 or a value that is not a number (a string, \<open>null\<close>, a
  boolean, an array, an object) has exactly one complexity error in the result, and an
  entry whose \<open>complexity\<close> is 1 or 5 has none. The error text names the entry's
  path, and the paths of a manifest are distinct. An absent complexity
  (\<open>undefined\<close>) is not checked.
\<close>

theorem complexity_boundary:
  assumes run: "validateMap date_nan m = Inr res"
      and dirs: "js_get m ''directories'' = Inr (JObj ds)"
      and keys: "distinct (map fst ds)"
      and entry: "(dirPath, JObj info) \<in> set ds"
  shows "(obj_get info ''complexity'' = JNum (Fin 0)
          \<or> obj_get info ''complexity'' = JNum (Fin 6)
          \<or> (obj_get info ''complexity'' \<noteq> JUndefined
               \<and> typeof (obj_get info ''complexity'') \<noteq> ''number'')
          \<longrightarrow> count_list (errors res) (complexity_error (error_prefix dirPath)) = 1)
       \<and> (obj_get info ''complexity'' = JNum (Fin 1) \<or> obj_get info ''complexity'' = JNum (Fin 5)
          \<longrightarrow> count_list (errors res) (complexity_error (error_prefix dirPath)) = 0)"
proof -
  let ?c = "complexity_error (error_prefix dirPath)"
  from dirs obtain mkvs where m: "m = JObj mkvs" and d: "obj_get mkvs ''directories'' = JObj ds"
    by (cases m) auto
  from run m d obtain dirErrors where
    v: "validate_entries ds = Inr dirErrors"
    and r: "errors res = (if \<not> truthy (obj_get mkvs ''generated'')
                          then [''Missing required field: generated'']
                          else if date_nan (obj_get mkvs ''generated'')
                          then [''Invalid date format for generated field'']
                          else []) @ dirErrors"
    by (auto simp: validateMap_def bind_err_Inr bind_err_eq_Inr Object_entries_def Let_def)
  have h: "count_list (if \<not> truthy (obj_get mkvs ''generated'')
                       then [''Missing required field: generated'']
                       else if date_nan (obj_get mkvs ''generated'')
                       then [''Invalid date format for generated field'']
                       else []) ?c = 0"
    by (simp add: complexity_error_def error_prefix_def)
  have n: "count_list (errors res) ?c
      = length (complexity_check (error_prefix dirPath) (obj_get info ''complexity''))"
    by (simp only: r count_list_append h validate_entries_count [OF v keys entry])
  have one: "obj_get info ''complexity'' = JNum (Fin 0)
          \<or> obj_get info ''complexity'' = JNum (Fin 6)
          \<or> (obj_get info ''complexity'' \<noteq> JUndefined
               \<and> typeof (obj_get info ''complexity'') \<noteq> ''number'')
          \<Longrightarrow> length (complexity_check (error_prefix dirPath) (obj_get info ''complexity'')) = 1"
    by (auto simp: complexity_check_def num_gt_def)
  have none: "obj_get info ''complexity'' = JNum (Fin 1) \<or> obj_get info ''complexity'' = JNum (Fin 5)
          \<Longrightarrow> length (complexity_check (error_prefix dirPath) (obj_get info ''complexity'')) = 0"
    by (auto simp: complexity_check_def num_gt_def)
  show ?thesis
    using n one none by simp
qed

lemma boundary_manifest_validates:
  "\<exists>res. validateMap (\<lambda>v. False) boundary_manifest = Inr res"
  by (simp add: validateMap_def boundary_manifest_def boundary_entries_def bind_err_Inr
      obj_get_Cons obj_get_Nil Object_entries_def validateDirectoryEntry_def Let_def
      arrayFields_def)

theorem complexity_boundary_witness:
  "\<exists>res. validateMap (\<lambda>v. False) boundary_manifest = Inr res
     \<and> count_list (errors res) (complexity_error (error_prefix ''/a'')) = 1
     \<and> count_list (errors res) (complexity_error (error_prefix ''/b'')) = 0
     \<and> count_list (errors res) (complexity_error (error_prefix ''/c'')) = 1"
proof -
  from boundary_manifest_validates obtain res where
    run: "validateMap (\<lambda>v. False) boundary_manifest = Inr res" ..
  have dirs: "js_get boundary_manifest ''directories'' = Inr (JObj boundary_entries)"
    by (simp add: boundary_manifest_def obj_get_Cons)
  have keys: "distinct (map fst boundary_entries)"
    by (simp add: boundary_entries_def)
  have a: "(''/a'', JObj [(''purpose'', JStr ''a''), (''complexity'', JNum (Fin 0))]) \<in> set boundary_entries"
    by (simp add: boundary_entries_def)
  have b: "(''/b'', JObj [(''purpose'', JStr ''b''), (''complexity'', JNum (Fin 5))]) \<in> set boundary_entries"
    by (simp add: boundary_entries_def)
  have c: "(''/c'', JObj [(''purpose'', JStr ''c''), (''complexity'', JStr ''3'')]) \<in> set boundary_entries"
    by (simp add: boundary_entries_def)
  have ca: "count_list (errors res) (complexity_error (error_prefix ''/a'')) = 1"
    using complexity_boundary [OF run dirs keys a] by (simp add: obj_get_Cons)
  have cb: "count_list (errors res) (complexity_error (error_prefix ''/b'')) = 0"
    using complexity_boundary [OF run dirs keys b] by (simp add: obj_get_Cons)
  have cc: "count_list (errors res) (complexity_error (error_prefix ''/c'')) = 1"
    using complexity_boundary [OF run dirs keys c] by (simp add: obj_get_Cons)
  show ?thesis
    by (insert run ca cb cc, intro exI conjI, assumption+)
qed

subsection \<open>Objects: reads after writes, and serialisation\<close>

lemma map_of_replace_other:
  "k' \<noteq> k \<Longrightarrow>
     map_of (map (\<lambda>(k', v'). if k' = k then (k', v) else (k', v')) kvs) k' = map_of kvs k'"
  by (induction kvs) auto

lemma map_of_replace_same:
  "k \<in> fst ` set kvs \<Longrightarrow>
     map_of (map (\<lambda>(k', v'). if k' = k then (k', v) else (k', v')) kvs) k = Some v"
  by (induction kvs) auto

lemma obj_get_obj_set:
  "obj_get (obj_set kvs k v) k' = (if k' = k then v else obj_get kvs k')"
proof (cases "k \<in> fst ` set kvs")
  case True
  then show ?thesis
    by (simp add: obj_get_def obj_set_def map_of_replace_other map_of_replace_same)
next
  case False
  then have "map_of kvs k = None"
    by (simp add: map_of_eq_None_iff)
  with False show ?thesis
    by (auto simp: obj_get_def obj_set_def map_of_append map_add_def split: option.splits)
qed

lemma set_obj_set: "set (obj_set kvs k v) \<subseteq> insert (k, v) (set kvs)"
  by (auto simp: obj_set_def split: if_splits)

lemma keys_obj_set: "fst ` set (obj_set kvs k v) = insert k (fst ` set kvs)"
  by (force simp: obj_set_def split: if_splits)

lemma set_spread: "set (spread acc kvs) \<subseteq> set acc \<union> set kvs"
proof (induction kvs arbitrary: acc)
  case Nil
  then show ?case by (simp add: spread_def)
next
  case (Cons kv kvs)
  obtain k v where kv: "kv = (k, v)" by (cases kv)
  have "spread acc (kv # kvs) = spread (obj_set acc k v) kvs"
    by (simp add: spread_def kv)
  with Cons.IH [of "obj_set acc k v"] set_obj_set [of acc k v] kv show ?case by auto
qed

lemma keys_spread: "fst ` set acc \<subseteq> fst ` set (spread acc kvs)"
proof (induction kvs arbitrary: acc)
  case Nil
  then show ?case by (simp add: spread_def)
next
  case (Cons kv kvs)
  obtain k v where kv: "kv = (k, v)" by (cases kv)
  have "spread acc (kv # kvs) = spread (obj_set acc k v) kvs"
    by (simp add: spread_def kv)
  with Cons.IH [of "obj_set acc k v"] keys_obj_set [of acc k v] show ?case by auto
qed

lemma obj_get_member: "k \<in> fst ` set kvs \<Longrightarrow> (k, obj_get kvs k) \<in> set kvs"
  by (induction kvs) (auto simp: obj_get_def)

lemma obj_get_absent: "k \<notin> fst ` set kvs \<Longrightarrow> obj_get kvs k = JUndefined"
  by (simp add: obj_get_def map_of_eq_None_iff [THEN iffD2])

lemma json_norm_defined: "json_norm v \<noteq> JUndefined"
proof (cases v)
  case (JNum n)
  then show ?thesis by (cases n) simp_all
qed simp_all

lemma obj_get_json_norm:
  "obj_get kvs k \<noteq> JUndefined \<Longrightarrow>
     obj_get (map (\<lambda>(k, v). (k, json_norm v)) (filter (\<lambda>(k, v). v \<noteq> JUndefined) kvs)) k
       = json_norm (obj_get kvs k)"
  by (induction kvs) (auto simp: obj_get_def)

lemma obj_get_json_norm_absent:
  "k \<notin> fst ` set kvs \<Longrightarrow>
     obj_get (map (\<lambda>(k, v). (k, json_norm v)) (filter (\<lambda>(k, v). v \<noteq> JUndefined) kvs)) k
       = JUndefined"
  by (rule obj_get_absent) force

subsection \<open>Conforming entries validate\<close>

lemma key_file_ok_json_norm: "key_file_ok kf \<Longrightarrow> key_file_ok (json_norm kf)"
proof (cases kf)
  case (JObj ob)
  assume "key_file_ok kf"
  with JObj obtain f d where
    f: "obj_get ob ''file'' = JStr f" "f \<noteq> []" and d: "obj_get ob ''description'' = JStr d" "d \<noteq> []"
    by (auto split: jsval.splits)
  from f(1) d(1) have
    "obj_get (map (\<lambda>(k, v). (k, json_norm v)) (filter (\<lambda>(k, v). v \<noteq> JUndefined) ob)) ''file'' = JStr f"
    "obj_get (map (\<lambda>(k, v). (k, json_norm v)) (filter (\<lambda>(k, v). v \<noteq> JUndefined) ob)) ''description'' = JStr d"
    by (simp_all add: obj_get_json_norm)
  with JObj f(2) d(2) show ?thesis by simp
qed simp_all

lemma list_all_key_file_ok_json_norm:
  "list_all key_file_ok kfs \<Longrightarrow> list_all key_file_ok (map json_norm kfs)"
  by (induction kfs) (simp_all add: key_file_ok_json_norm)

lemma arrayFields_not_scalar:
  "k \<in> set arrayFields \<Longrightarrow> k \<noteq> ''purpose'' \<and> k \<noteq> ''complexity'' \<and> k \<noteq> ''changeFrequency''"
  by (auto simp: arrayFields_def)

lemma field_ok_purpose: "field_ok ''purpose'' v = (case v of JStr s \<Rightarrow> True | _ \<Rightarrow> False)"
  by (simp add: field_ok_def)

lemma field_ok_complexity:
  "field_ok ''complexity'' v = (case v of JNum (Fin r) \<Rightarrow> 1 \<le> r \<and> r \<le> 5 | _ \<Rightarrow> False)"
  by (simp add: field_ok_def)

lemma field_ok_changeFrequency:
  "field_ok ''changeFrequency'' v = includes_str validFrequencies v"
  by (simp add: field_ok_def)

lemma field_ok_array: "k \<in> set arrayFields \<Longrightarrow> field_ok k v = isArray v"
  using arrayFields_not_scalar [of k] by (simp add: field_ok_def)

lemma field_ok_keyFiles:
  "field_ok ''keyFiles'' v = (case v of JArr kfs \<Rightarrow> list_all key_file_ok kfs | _ \<Rightarrow> False)"
  by (simp add: field_ok_def arrayFields_def)

lemma field_ok_other:
  "k \<noteq> ''purpose'' \<Longrightarrow> k \<noteq> ''complexity'' \<Longrightarrow> k \<noteq> ''changeFrequency''
     \<Longrightarrow> k \<notin> set arrayFields \<Longrightarrow> k \<noteq> ''keyFiles'' \<Longrightarrow> field_ok k v"
  by (simp add: field_ok_def)

lemma field_ok_json_norm: "field_ok k v \<Longrightarrow> field_ok k (json_norm v)"
proof -
  assume ok: "field_ok k v"
  consider "k = ''purpose''" | "k = ''complexity''" | "k = ''changeFrequency''"
    | "k \<in> set arrayFields" | "k = ''keyFiles''"
    | "k \<noteq> ''purpose''" "k \<noteq> ''complexity''" "k \<noteq> ''changeFrequency''"
      "k \<notin> set arrayFields" "k \<noteq> ''keyFiles''"
    by blast
  then show ?thesis
  proof cases
    case 1
    with ok show ?thesis by (cases v) (simp_all add: field_ok_purpose)
  next
    case 2
    with ok show ?thesis by (auto simp: field_ok_complexity split: jsval.splits jsnum.splits)
  next
    case 3
    with ok show ?thesis by (cases v) (simp_all add: field_ok_changeFrequency includes_str_def)
  next
    case 4
    with ok show ?thesis by (cases v) (simp_all add: field_ok_array)
  next
    case 5
    with ok show ?thesis
      by (cases v) (simp_all add: field_ok_keyFiles list_all_key_file_ok_json_norm)
  next
    case 6
    then show ?thesis by (rule field_ok_other)
  qed
qed

lemma fields_after_roundtrip:
  "list_all (\<lambda>(k, x). field_ok k x) kvs \<Longrightarrow>
     obj_get (map (\<lambda>(k, v). (k, json_norm v)) (filter (\<lambda>(k, v). v \<noteq> JUndefined) kvs)) k = JUndefined
     \<or> field_ok k (obj_get (map (\<lambda>(k, v). (k, json_norm v)) (filter (\<lambda>(k, v). v \<noteq> JUndefined) kvs)) k)"
  by (induction kvs) (auto simp: obj_get_Nil obj_get_Cons field_ok_json_norm)

lemma purpose_after_roundtrip:
  assumes "list_all (\<lambda>(k, x). field_ok k x) kvs" and "''purpose'' \<in> fst ` set kvs"
  shows "obj_get (map (\<lambda>(k, v). (k, json_norm v)) (filter (\<lambda>(k, v). v \<noteq> JUndefined) kvs)) ''purpose''
           \<noteq> JUndefined"
proof -
  from obj_get_member [OF assms(2)] assms(1)
  have "field_ok ''purpose'' (obj_get kvs ''purpose'')"
    by (auto simp: list_all_iff)
  then have "obj_get kvs ''purpose'' \<noteq> JUndefined"
    by (auto simp: field_ok_purpose)
  from obj_get_json_norm [OF this] show ?thesis
    by (simp add: json_norm_defined)
qed

lemma complexity_check_ok:
  "c = JUndefined \<or> field_ok ''complexity'' c \<Longrightarrow> complexity_check pre c = []"
  by (auto simp: complexity_check_def field_ok_complexity num_gt_def split: jsval.splits jsnum.splits)

lemma changeFrequency_check_ok:
  "c = JUndefined \<or> field_ok ''changeFrequency'' c \<Longrightarrow> changeFrequency_check pre c = []"
  by (auto simp: changeFrequency_check_def field_ok_changeFrequency)

lemma arrayFields_check_ok:
  "\<forall>f \<in> set fs. obj_get kvs f = JUndefined \<or> isArray (obj_get kvs f)
     \<Longrightarrow> arrayFields_check pre (JObj kvs) fs = Inr []"
  by (induction fs) auto

lemma keyFiles_check_ok:
  "list_all key_file_ok kfs \<Longrightarrow> keyFiles_check pre idx kfs = Inr []"
proof (induction kfs arbitrary: idx)
  case Nil
  then show ?case by simp
next
  case (Cons kf kfs)
  then have kf: "key_file_ok kf" and rest: "keyFiles_check pre (Suc idx) kfs = Inr []"
    by simp_all
  from kf obtain ob where o: "kf = JObj ob" by (cases kf) simp_all
  with kf have "truthy (obj_get ob ''file'')" "truthy (obj_get ob ''description'')"
    by (auto split: jsval.splits)
  with o rest show ?case by simp
qed

lemma keyFiles_part_ok:
  "x = JUndefined \<or> field_ok ''keyFiles'' x \<Longrightarrow>
     (if x \<noteq> JUndefined then
        (case x of JArr kfs \<Rightarrow> keyFiles_check pre 0 kfs
         | _ \<Rightarrow> Inr [pre @ '' keyFiles must be an array''])
      else Inr []) = Inr []"
  by (cases x) (auto simp: field_ok_keyFiles keyFiles_check_ok)

lemma entry_ok_validates:
  assumes "entry_ok v"
  shows "validateDirectoryEntry p (json_norm v) = Inr []"
proof -
  from assms obtain kvs where v: "v = JObj kvs"
    and all: "list_all (\<lambda>(k, x). field_ok k x) kvs" and pur: "''purpose'' \<in> fst ` set kvs"
    by (auto simp: entry_ok_def split: jsval.splits)
  define n where "n = map (\<lambda>(k, v). (k, json_norm v)) (filter (\<lambda>(k, v). v \<noteq> JUndefined) kvs)"
  have look: "obj_get n k = JUndefined \<or> field_ok k (obj_get n k)" for k
    unfolding n_def by (rule fields_after_roundtrip [OF all])
  have p1: "obj_get n ''purpose'' \<noteq> JUndefined"
    unfolding n_def by (rule purpose_after_roundtrip [OF all pur])
  have p2: "complexity_check (error_prefix p) (obj_get n ''complexity'') = []"
    by (rule complexity_check_ok [OF look])
  have p3: "changeFrequency_check (error_prefix p) (obj_get n ''changeFrequency'') = []"
    by (rule changeFrequency_check_ok [OF look])
  have "\<forall>f \<in> set arrayFields. obj_get n f = JUndefined \<or> isArray (obj_get n f)"
  proof
    fix f assume f: "f \<in> set arrayFields"
    from look [of f] f show "obj_get n f = JUndefined \<or> isArray (obj_get n f)"
      by (auto simp: field_ok_array)
  qed
  then have p4: "arrayFields_check (error_prefix p) (JObj n) arrayFields = Inr []"
    by (rule arrayFields_check_ok)
  have p5: "(if obj_get n ''keyFiles'' \<noteq> JUndefined then
        (case obj_get n ''keyFiles'' of JArr kfs \<Rightarrow> keyFiles_check (error_prefix p) 0 kfs
         | _ \<Rightarrow> Inr [error_prefix p @ '' keyFiles must be an array''])
      else Inr []) = Inr []"
    by (rule keyFiles_part_ok [OF look])
  have "validateDirectoryEntry p (JObj n) = Inr []"
    by (simp add: validateDirectoryEntry_def Let_def bind_err_Inr p1 p2 p3 p4 p5)
  then show ?thesis
    by (simp add: v n_def)
qed

subsection \<open>What the schema functions build\<close>

lemma createDirectoryEntry_default:
  "createDirectoryEntry now JUndefined = Inr (JObj (default_fields now))"
  by (simp add: createDirectoryEntry_def bind_err_Inr obj_get_Nil js_or_falsy default_fields_def)

lemma createDirectoryEntry_primitive:
  "info \<noteq> JUndefined \<Longrightarrow> info \<noteq> JNull \<Longrightarrow> \<forall>kvs. info \<noteq> JObj kvs
     \<Longrightarrow> createDirectoryEntry now info = Inr (JObj (default_fields now))"
  by (cases info)
     (simp_all add: createDirectoryEntry_def bind_err_Inr js_or_falsy default_fields_def)

lemma createDirectoryEntry_null: "createDirectoryEntry now JNull = Inl TypeError"
  by (simp add: createDirectoryEntry_def bind_err_Inl)

lemma default_fields_ok: "list_all (\<lambda>(k, x). field_ok k x) (default_fields now)"
  by (simp add: default_fields_def field_ok_purpose field_ok_complexity
      field_ok_changeFrequency field_ok_keyFiles field_ok_array arrayFields_def
      field_ok_other includes_str_def validFrequencies_def)

lemma default_fields_purpose: "''purpose'' \<in> fst ` set (default_fields now)"
  by (simp add: default_fields_def)

lemma entry_ok_default: "entry_ok (JObj (default_fields now))"
  by (simp add: entry_ok_def default_fields_ok default_fields_purpose)

lemma field_ok_js_or:
  assumes "list_all (\<lambda>(k, x). field_ok k x) kvs" and "field_ok k d"
  shows "field_ok k (js_or (obj_get kvs k) d)"
proof (cases "truthy (obj_get kvs k)")
  case True
  have "k \<in> fst ` set kvs"
  proof (rule ccontr)
    assume "k \<notin> fst ` set kvs"
    from obj_get_absent [OF this] True show False by simp
  qed
  from obj_get_member [OF this] assms(1) have "field_ok k (obj_get kvs k)"
    by (auto simp: list_all_iff)
  with True show ?thesis by (simp add: js_or_truthy)
next
  case False
  with assms(2) show ?thesis by (simp add: js_or_falsy)
qed

lemma createDirectoryEntry_entry_ok:
  assumes "createDirectoryEntry now info = Inr entry" and "conforming info"
  shows "entry_ok entry"
proof (cases "\<exists>kvs. info = JObj kvs")
  case True
  then obtain kvs where info: "info = JObj kvs" ..
  with assms(2) have all: "list_all (\<lambda>(k, x). field_ok k x) kvs"
    by (simp add: conforming_def)
  note d = default_fields_ok [of now, unfolded default_fields_def, simplified]
  have "list_all (\<lambda>(k, x). field_ok k x)
     [(''purpose'', js_or (obj_get kvs ''purpose'') (JStr [])),
      (''complexity'', js_or (obj_get kvs ''complexity'') (JNum (Fin 1))),
      (''changeFrequency'', js_or (obj_get kvs ''changeFrequency'') (JStr ''Unknown'')),
      (''entryPoints'', js_or (obj_get kvs ''entryPoints'') (JArr [])),
      (''internalDeps'', js_or (obj_get kvs ''internalDeps'') (JArr [])),
      (''externalDeps'', js_or (obj_get kvs ''externalDeps'') (JArr [])),
      (''readmePath'', js_or (obj_get kvs ''readmePath'') (JStr [])),
      (''keyFiles'', js_or (obj_get kvs ''keyFiles'') (JArr [])),
      (''subdirectories'', js_or (obj_get kvs ''subdirectories'') (JArr [])),
      (''lastUpdated'', js_or (obj_get kvs ''lastUpdated'') (JStr now))]"
    using d by (simp add: field_ok_js_or [OF all])
  with assms(1) info show ?thesis
    by (auto simp: createDirectoryEntry_object entry_ok_def)
next
  case False
  with assms(1) have "entry = JObj (default_fields now)"
    by (cases "info = JUndefined"; cases "info = JNull")
       (auto simp: createDirectoryEntry_default createDirectoryEntry_null
          createDirectoryEntry_primitive)
  then show ?thesis by (simp add: entry_ok_default)
qed

lemma spread_entry_ok:
  assumes "conforming dirInfo"
  shows "entry_ok (JObj (spread (spread (spread [] (default_fields now)) (own_props dirInfo))
                    [(''lastUpdated'', JStr now)]))"
proof -
  let ?a = "spread [] (default_fields now)"
  let ?b = "spread ?a (own_props dirInfo)"
  let ?c = "spread ?b [(''lastUpdated'', JStr now)]"
  have "set ?c \<subseteq> set (default_fields now) \<union> set (own_props dirInfo) \<union> {(''lastUpdated'', JStr now)}"
    using set_spread [of ?b "[(''lastUpdated'', JStr now)]"] set_spread [of ?a "own_props dirInfo"]
      set_spread [of "[]" "default_fields now"]
    by auto
  moreover have "\<forall>(k, x) \<in> set (default_fields now). field_ok k x"
    using default_fields_ok [of now] by (simp add: list_all_iff)
  moreover have "\<forall>(k, x) \<in> set (own_props dirInfo). field_ok k x"
    using assms by (simp add: conforming_def list_all_iff)
  moreover have "field_ok ''lastUpdated'' (JStr now)"
    by (simp add: field_ok_other arrayFields_def)
  ultimately have all: "list_all (\<lambda>(k, x). field_ok k x) ?c"
    unfolding list_all_iff by blast
  have a: "fst ` set (default_fields now) \<subseteq> fst ` set ?a"
    using keys_obj_set by (simp add: spread_def default_fields_def)
  have pa: "''purpose'' \<in> fst ` set ?a"
    by (rule subsetD [OF a default_fields_purpose])
  have pb: "''purpose'' \<in> fst ` set ?b"
    by (rule subsetD [OF keys_spread pa])
  have "''purpose'' \<in> fst ` set ?c"
    by (rule subsetD [OF keys_spread pb])
  with all show ?thesis by (simp add: entry_ok_def)
qed

lemma entries_obj_set:
  "list_all (\<lambda>(p, v). entry_ok v) ds \<Longrightarrow> entry_ok entry
     \<Longrightarrow> list_all (\<lambda>(p, v). entry_ok v) (obj_set ds dirPath entry)"
  using set_obj_set [of ds dirPath entry] unfolding list_all_iff by blast

lemma manifest_ok_created: "timestamp_ok date_nan now \<Longrightarrow> manifest_ok date_nan (createEmptyMap now)"
  by (simp add: manifest_ok_def createEmptyMap_def obj_get_Cons)

lemma manifest_ok_updateMap:
  assumes m: "manifest_ok date_nan m" and t: "timestamp_ok date_nan now"
      and c: "conforming dirInfo" and u: "updateMap now m dirPath dirInfo = Inr m'"
  shows "manifest_ok date_nan m'"
proof -
  from m obtain mkvs ds where mk: "m = JObj mkvs"
    and d: "obj_get mkvs ''directories'' = JObj ds"
    and es: "list_all (\<lambda>(p, v). entry_ok v) ds"
    by (auto simp: manifest_ok_def split: jsval.splits)
  let ?entry = "JObj (spread (spread (spread [] (default_fields now)) (own_props dirInfo))
                    [(''lastUpdated'', JStr now)])"
  from u mk d have m': "m' = JObj (obj_set (obj_set mkvs ''directories'' (JObj (obj_set ds dirPath ?entry)))
                            ''generated'' (JStr now))"
    by (simp add: updateMap_def js_or_truthy bind_err_Inr createDirectoryEntry_default Let_def)
  have "list_all (\<lambda>(p, v). entry_ok v) (obj_set ds dirPath ?entry)"
    by (rule entries_obj_set [OF es spread_entry_ok [OF c]])
  with t show ?thesis
    by (simp add: m' manifest_ok_def obj_get_obj_set)
qed

lemma manifest_ok_stored:
  assumes m: "manifest_ok date_nan (JObj mkvs)" and d: "obj_get mkvs ''directories'' = JObj ds"
      and c: "conforming info" and e: "createDirectoryEntry now info = Inr entry"
  shows "manifest_ok date_nan (JObj (obj_set mkvs ''directories'' (JObj (obj_set ds dirPath entry))))"
proof -
  from m d have es: "list_all (\<lambda>(p, v). entry_ok v) ds"
    and g: "(case obj_get mkvs ''generated'' of JStr t \<Rightarrow> timestamp_ok date_nan t | _ \<Rightarrow> False)"
    by (simp_all add: manifest_ok_def)
  have "list_all (\<lambda>(p, v). entry_ok v) (obj_set ds dirPath entry)"
    by (rule entries_obj_set [OF es createDirectoryEntry_entry_ok [OF e c]])
  with g show ?thesis
    by (simp add: manifest_ok_def obj_get_obj_set)
qed

lemma produced_manifest_ok: "produced date_nan m \<Longrightarrow> manifest_ok date_nan m"
proof (induction rule: produced.induct)
  case (created now)
  then show ?case by (rule manifest_ok_created)
next
  case (updated m now dirInfo dirPath m')
  then show ?case by (blast intro: manifest_ok_updateMap)
next
  case (updated_absent existing now dirInfo dirPath m')
  from updated_absent(1,4) have "updateMap now (createEmptyMap now) dirPath dirInfo = Inr m'"
    by (simp add: updateMap_def js_or_falsy js_or_truthy createEmptyMap_def)
  from manifest_ok_updateMap [OF manifest_ok_created [OF updated_absent(2)] updated_absent(2,3) this]
  show ?case .
next
  case (stored mkvs ds now info entry dirPath)
  then show ?case by (blast intro: manifest_ok_stored)
qed

lemma validate_entries_ok:
  "list_all (\<lambda>(p, v). entry_ok v) ds \<Longrightarrow>
     validate_entries (map (\<lambda>(k, v). (k, json_norm v)) (filter (\<lambda>(k, v). v \<noteq> JUndefined) ds))
       = Inr []"
  by (induction ds) (auto simp: entry_ok_validates)

lemma manifest_ok_validates:
  assumes "manifest_ok date_nan m"
  shows "validate_roundtrip date_nan m = Inr \<lparr> valid = True, errors = [] \<rparr>"
proof -
  from assms obtain mkvs ds t where mk: "m = JObj mkvs"
    and g: "obj_get mkvs ''generated'' = JStr t" and t: "timestamp_ok date_nan t"
    and d: "obj_get mkvs ''directories'' = JObj ds"
    and es: "list_all (\<lambda>(p, v). entry_ok v) ds"
    by (auto simp: manifest_ok_def split: jsval.splits)
  define n where "n = map (\<lambda>(k, v). (k, json_norm v)) (filter (\<lambda>(k, v). v \<noteq> JUndefined) mkvs)"
  define nd where "nd = map (\<lambda>(k, v). (k, json_norm v)) (filter (\<lambda>(k, v). v \<noteq> JUndefined) ds)"
  have rt: "JSON_roundtrip m = Inr (JObj n)"
    by (simp add: JSON_roundtrip_def mk n_def)
  have g': "obj_get n ''generated'' = JStr t"
    unfolding n_def using obj_get_json_norm [of mkvs "''generated''"] g by simp
  have d': "obj_get n ''directories'' = JObj nd"
    unfolding n_def nd_def using obj_get_json_norm [of mkvs "''directories''"] d by simp
  have v: "validate_entries nd = Inr []"
    unfolding nd_def by (rule validate_entries_ok [OF es])
  from t have tt: "t \<noteq> []" "\<not> date_nan (JStr t)"
    by (simp_all add: timestamp_ok_def)
  have "validateMap date_nan (JObj n) = Inr \<lparr> valid = True, errors = [] \<rparr>"
    by (simp add: validateMap_def bind_err_Inr g' d' Object_entries_def v tt)
  then show ?thesis
    by (simp add: validate_roundtrip_def rt bind_err_Inr)
qed

text \<open>
  Claim C4 says that a manifest produced by \<open>createDirectoryEntry\<close> or
  \<open>updateMap\<close> from any partial validates after a JSON round trip. Both functions
  copy the supplied values without checking them: a partial with \<open>complexity: 10\<close>
  gives a manifest that the validation rejects.
\<close>

theorem unchecked_partial_counterexample:
  "update_then_validate (JObj [(''complexity'', JNum (Fin 10))])
     = Inr \<lparr> valid = False, errors = [complexity_error (error_prefix ''/src'')] \<rparr>
   \<and> create_then_validate (JObj [(''complexity'', JNum (Fin 10))])
     = Inr \<lparr> valid = False, errors = [complexity_error (error_prefix ''/src'')] \<rparr>"
proof -
  let ?entry = "JObj [(''purpose'', JStr []), (''complexity'', JNum (Fin 10)),
      (''changeFrequency'', JStr ''Unknown''), (''entryPoints'', JArr []),
      (''internalDeps'', JArr []), (''externalDeps'', JArr []), (''readmePath'', JStr []),
      (''keyFiles'', JArr []), (''subdirectories'', JArr []), (''lastUpdated'', JStr clock)]"
  let ?m = "JObj [(''generated'', JStr clock), (''directories'', JObj [(''/src'', ?entry)])]"
  have u: "updateMap clock JUndefined ''/src'' (JObj [(''complexity'', JNum (Fin 10))]) = Inr ?m"
    by (simp add: updateMap_def js_or_falsy createEmptyMap_def bind_err_Inr
        createDirectoryEntry_default default_fields_def obj_get_Cons spread_def obj_set_def)
  have c: "createDirectoryEntry clock (JObj [(''complexity'', JNum (Fin 10))]) = Inr ?entry"
    by (simp add: createDirectoryEntry_object obj_get_Cons obj_get_Nil js_or_def)
  have e: "validateDirectoryEntry ''/src'' ?entry = Inr [complexity_error (error_prefix ''/src'')]"
    by (simp add: validateDirectoryEntry_def Let_def bind_err_Inr obj_get_Cons obj_get_Nil
        arrayFields_def complexity_check_def num_gt_def changeFrequency_check_def
        includes_str_def validFrequencies_def)
  have ne: "clock \<noteq> []"
    by (simp add: clock_def)
  have v: "validate_roundtrip (\<lambda>v. v \<noteq> JStr clock) ?m
      = Inr \<lparr> valid = False, errors = [complexity_error (error_prefix ''/src'')] \<rparr>"
    by (simp add: validate_roundtrip_def JSON_roundtrip_def bind_err_Inr validateMap_def
        obj_get_Cons Object_entries_def e ne)
  show ?thesis
    by (simp only: update_then_validate_def create_then_validate_def u c bind_err_Inr v)
qed

text \<open>
  Claim C4, amended. A manifest produced by the schema functions from partials whose
  supplied values conform to the data model (and with clock readings that the date
  parser accepts) validates after a JSON round trip: \<open>valid\<close> is true and there
  is no error.
\<close>

theorem produced_manifest_roundtrip:
  "produced date_nan m \<Longrightarrow> validate_roundtrip date_nan m = Inr \<lparr> valid = True, errors = [] \<rparr>"
  by (rule manifest_ok_validates [OF produced_manifest_ok])

theorem produced_manifest_roundtrip_witness:
  "\<exists>m. updateMap clock JUndefined ''/src''
          (JObj [(''purpose'', JStr ''api''), (''complexity'', JNum (Fin 3))]) = Inr m
     \<and> produced (\<lambda>v. v \<noteq> JStr clock) m
     \<and> validate_roundtrip (\<lambda>v. v \<noteq> JStr clock) m = Inr \<lparr> valid = True, errors = [] \<rparr>"
proof -
  let ?info = "JObj [(''purpose'', JStr ''api''), (''complexity'', JNum (Fin 3))]"
  have "\<exists>m. updateMap clock JUndefined ''/src'' ?info = Inr m"
    by (simp add: updateMap_def js_or_falsy createEmptyMap_def bind_err_Inr
        createDirectoryEntry_default obj_get_Cons)
  then obtain m where u: "updateMap clock JUndefined ''/src'' ?info = Inr m" ..
  have f: "\<not> truthy JUndefined" by simp
  have t: "timestamp_ok (\<lambda>v. v \<noteq> JStr clock) clock"
    by (simp add: timestamp_ok_def clock_def)
  have c: "conforming ?info"
    by (simp add: conforming_def field_ok_purpose field_ok_complexity)
  have p: "produced (\<lambda>v. v \<noteq> JStr clock) m"
    by (rule produced.updated_absent [OF f t c u])
  have r: "validate_roundtrip (\<lambda>v. v \<noteq> JStr clock) m = Inr \<lparr> valid = True, errors = [] \<rparr>"
    by (rule produced_manifest_roundtrip [OF p])
  show ?thesis
    by (insert u p r, intro exI conjI, assumption+)
qed

subsection \<open>When the validation returns\<close>

lemma arrayFields_check_returns: "v \<noteq> JNull \<Longrightarrow> v \<noteq> JUndefined \<Longrightarrow> \<exists>errs. arrayFields_check pre v fs = Inr errs"
proof (induction fs)
  case Nil
  then show ?case by simp
next
  case (Cons f fs)
  then obtain rest where r: "arrayFields_check pre v fs = Inr rest" by blast
  from Cons.prems obtain x where "js_get v f = Inr x" by (cases v) simp_all
  with r show ?case by simp
qed

lemma keyFiles_check_returns:
  "list_all (\<lambda>kf. kf \<noteq> JNull \<and> kf \<noteq> JUndefined) kfs \<Longrightarrow> \<exists>errs. keyFiles_check pre idx kfs = Inr errs"
proof (induction kfs arbitrary: idx)
  case Nil
  then show ?case by simp
next
  case (Cons kf kfs)
  then obtain rest where r: "keyFiles_check pre (Suc idx) kfs = Inr rest" by force
  from Cons.prems obtain x y where "js_get kf ''file'' = Inr x" "js_get kf ''description'' = Inr y"
    by (cases kf) simp_all
  with r show ?case by simp
qed

lemma validateDirectoryEntry_returns:
  assumes "readable_entry v"
  shows "\<exists>errs. validateDirectoryEntry p v = Inr errs"
proof (cases v)
  case (JObj kvs)
  obtain arr where a: "arrayFields_check (error_prefix p) (JObj kvs) arrayFields = Inr arr"
    using arrayFields_check_returns [of "JObj kvs"] by auto
  have "\<exists>kf. (if obj_get kvs ''keyFiles'' \<noteq> JUndefined then
        (case obj_get kvs ''keyFiles'' of
           JArr kfs \<Rightarrow> keyFiles_check (error_prefix p) 0 kfs
         | _ \<Rightarrow> Inr [error_prefix p @ '' keyFiles must be an array''])
      else Inr []) = Inr kf"
  proof (cases "obj_get kvs ''keyFiles''")
    case (JArr kfs)
    with assms JObj have "list_all (\<lambda>kf. kf \<noteq> JNull \<and> kf \<noteq> JUndefined) kfs"
      by (simp add: readable_entry_def)
    from keyFiles_check_returns [OF this] JArr show ?thesis by simp
  qed simp_all
  then obtain kf where k: "(if obj_get kvs ''keyFiles'' \<noteq> JUndefined then
        (case obj_get kvs ''keyFiles'' of
           JArr kfs \<Rightarrow> keyFiles_check (error_prefix p) 0 kfs
         | _ \<Rightarrow> Inr [error_prefix p @ '' keyFiles must be an array''])
      else Inr []) = Inr kf" ..
  show ?thesis
    by (simp add: JObj validateDirectoryEntry_def Let_def bind_err_Inr a k)
next
  case (JArr xs)
  then show ?thesis by (simp add: validateDirectoryEntry_array)
next
  case JNull
  with assms show ?thesis by (simp add: readable_entry_def)
qed (simp_all add: validateDirectoryEntry_def Let_def)

lemma validate_entries_returns:
  "list_all (\<lambda>(p, v). readable_entry v) ds \<Longrightarrow> \<exists>errs. validate_entries ds = Inr errs"
proof (induction ds)
  case Nil
  then show ?case by simp
next
  case (Cons d ds)
  obtain p v where d: "d = (p, v)" by (cases d)
  with Cons obtain rest where r: "validate_entries ds = Inr rest" by auto
  from Cons.prems d obtain e1 where "validateDirectoryEntry p v = Inr e1"
    using validateDirectoryEntry_returns [of v p] by auto
  with r d show ?case by simp
qed

lemma validateMap_returns:
  assumes "\<And>d. js_get m ''directories'' = Inr d \<Longrightarrow> list_all (\<lambda>(p, v). readable_entry v) (own_props d)"
  shows "\<exists>res. validateMap date_nan m = Inr res"
proof (cases "truthy m")
  case False
  then show ?thesis by (simp add: validateMap_def)
next
  case True
  then obtain g d where g: "js_get m ''generated'' = Inr g" and d: "js_get m ''directories'' = Inr d"
    by (cases m) auto
  from validate_entries_returns [OF assms [OF d]] obtain errs where
    "validate_entries (own_props d) = Inr errs" ..
  with True g d show ?thesis
    by (simp add: validateMap_def bind_err_Inr Object_entries_def Let_def)
qed

subsection \<open>The upward search\<close>

lemma findConfig_None_iff:
  "findConfig e d = None \<longleftrightarrow>
     (\<forall>n. 0 < n \<and> n \<le> length d \<longrightarrow> \<not> existsSync e (abs_path (take n d @ [CONFIG_FILENAME])))"
proof (induction d rule: rev_induct)
  case Nil
  then show ?case by (simp add: findConfig_root)
next
  case (snoc s d)
  show ?case
  proof (cases "existsSync e (abs_path (d @ [s, CONFIG_FILENAME]))")
    case True
    then have "existsSync e (abs_path (take (Suc (length d)) (d @ [s]) @ [CONFIG_FILENAME]))"
      by simp
    with True show ?thesis
      by (auto simp: findConfig_snoc intro!: exI [of _ "Suc (length d)"])
  next
    case False
    have "(\<forall>n. 0 < n \<and> n \<le> length (d @ [s]) \<longrightarrow>
              \<not> existsSync e (abs_path (take n (d @ [s]) @ [CONFIG_FILENAME])))
        \<longleftrightarrow> (\<forall>n. 0 < n \<and> n \<le> length d \<longrightarrow>
              \<not> existsSync e (abs_path (take n d @ [CONFIG_FILENAME])))"
    proof (intro iffI allI impI)
      fix n
      assume all: "\<forall>n. 0 < n \<and> n \<le> length (d @ [s]) \<longrightarrow>
              \<not> existsSync e (abs_path (take n (d @ [s]) @ [CONFIG_FILENAME]))"
        and n: "0 < n \<and> n \<le> length d"
      from spec [OF all, of n] n
      have "\<not> existsSync e (abs_path (take n (d @ [s]) @ [CONFIG_FILENAME]))"
        by simp
      with n show "\<not> existsSync e (abs_path (take n d @ [CONFIG_FILENAME]))"
        by simp
    next
      fix n
      assume all: "\<forall>n. 0 < n \<and> n \<le> length d \<longrightarrow>
              \<not> existsSync e (abs_path (take n d @ [CONFIG_FILENAME]))"
        and n: "0 < n \<and> n \<le> length (d @ [s])"
      show "\<not> existsSync e (abs_path (take n (d @ [s]) @ [CONFIG_FILENAME]))"
      proof (cases "n \<le> length d")
        case True
        with spec [OF all, of n] n show ?thesis by simp
      next
        case False
        with n have "n = Suc (length d)" by simp
        with \<open>\<not> existsSync e (abs_path (d @ [s, CONFIG_FILENAME]))\<close> show ?thesis by simp
      qed
    qed
    with False snoc.IH show ?thesis
      by (simp add: findConfig_snoc)
  qed
qed

end
